theory Spec2Isabelle
  imports Main "HOL-Library.Sublist" "HOL-Library.Multiset"
begin

section \<open>Fleet resource allocator: allocation matching and the historical append\<close>

text \<open>
  The development follows the Apps Script sources: \<^verbatim>\<open>Utils.js\<close> (getVanType, groupBy,
  getLastPopulatedRowInColumns, formatDate), the allocation service (allocateVehiclesToRoutes,
  updateResultsWithDailyRoutes, extractUnassignedRows), the sheet service (updateDailyDetails,
  getExistingUniqueIdentifiers) and the delivery pace service (getDeliveryPaceData,
  getDeliveryPaceDataFromForms, generateDeliveryPaceSummary).

  Conventions. Spreadsheet cells that the code copies, compares with \<^verbatim>\<open>===\<close> or uses as
  keys are \<open>string\<close>, the empty cell being the empty string (as \<^verbatim>\<open>getValues()\<close> returns
  it); the Service Type of a route, on which the code calls a method, is a value of any
  kind a cell can hold. An object made by \<^verbatim>\<open>{}\<close> and used as a dictionary is a map of
  its own properties, and a read of a key it does not own finds the member it inherits
  from \<^verbatim>\<open>Object.prototype\<close>, if there is one of that name. A \<^verbatim>\<open>TypeError\<close> raised by a
  call of something that is not a function is the error value of the function that raises
  it. Calls of \<^verbatim>\<open>Logger.log\<close> that a property depends on are recorded as events.
\<close>

subsection \<open>Configuration (Config.js)\<close>

definition VAN_TYPE_MAPPING :: "(string \<times> string) list" where
  "VAN_TYPE_MAPPING =
    [(''Standard Parcel - Extra Large Van - US'', ''Extra Large''),
     (''Standard Parcel - Large Van'', ''Large''),
     (''Standard Parcel Step Van - US'', ''Step Van'')]"

subsection \<open>Strings\<close>

text \<open>\<^verbatim>\<open>hay.indexOf(needle)\<close>: the first position at which \<open>needle\<close> starts, or \<open>-1\<close>.\<close>

fun startsWith :: "string \<Rightarrow> string \<Rightarrow> bool" where
  "startsWith hay [] = True"
| "startsWith [] (n # ns) = False"
| "startsWith (h # hs) (n # ns) = (h = n \<and> startsWith hs ns)"

fun indexOfFrom :: "nat \<Rightarrow> string \<Rightarrow> string \<Rightarrow> int" where
  "indexOfFrom i [] needle = (if needle = [] then int i else -1)"
| "indexOfFrom i (h # hs) needle =
     (if startsWith (h # hs) needle then int i else indexOfFrom (Suc i) hs needle)"

definition indexOf :: "string \<Rightarrow> string \<Rightarrow> int" where
  "indexOf hay needle = indexOfFrom 0 hay needle"

subsection \<open>Dates and cells\<close>

text \<open>
  A \<^verbatim>\<open>Date\<close> value as the script time zone shows it: year, month, day.
  \<^verbatim>\<open>formatDate\<close> renders it with the pattern \<^verbatim>\<open>MM/dd/yyyy\<close> (years below 10000).
\<close>

datatype date = Date (yearOf: nat) (monthOf: nat) (dayOf: nat)

definition digit :: "nat \<Rightarrow> char" where
  "digit n = ''0123456789'' ! (n mod 10)"

definition formatDate :: "date \<Rightarrow> string" where
  "formatDate d =
     [digit (monthOf d div 10), digit (monthOf d), CHR ''/'',
      digit (dayOf d div 10), digit (dayOf d), CHR ''/'',
      digit (yearOf d div 1000), digit (yearOf d div 100), digit (yearOf d div 10), digit (yearOf d)]"

text \<open>\<^verbatim>\<open>getTodayString()\<close> is \<^verbatim>\<open>formatDate(new Date())\<close>; the clock is the parameter \<open>now\<close>.\<close>

definition getTodayString :: "date \<Rightarrow> string" where
  "getTodayString now = formatDate now"

text \<open>
  A cell as \<^verbatim>\<open>getValues()\<close> returns it: text (the empty cell is \<open>Txt []\<close>), a number
  (whole numbers only) or a date.
\<close>

datatype cell = Txt string | Num int | DateObj date

fun showNat :: "nat \<Rightarrow> string" where
  "showNat n = (if n < 10 then [digit n] else showNat (n div 10) @ [digit n])"

definition showInt :: "int \<Rightarrow> string" where
  "showInt i = (if i < 0 then CHR ''-'' # showNat (nat (- i)) else showNat (nat i))"

definition isWhitespace :: "char \<Rightarrow> bool" where
  "isWhitespace c = (c \<in> set [CHR '' '', CHR 0x09, CHR 0x0A, CHR 0x0B, CHR 0x0C, CHR 0x0D])"

text \<open>\<^verbatim>\<open>s.trim() === ""\<close>\<close>

definition trimsToEmpty :: "string \<Rightarrow> bool" where
  "trimsToEmpty s = list_all isWhitespace s"

text \<open>\<^verbatim>\<open>row[j] && row[j].toString().trim() !== ""\<close>\<close>

fun cellPopulated :: "cell \<Rightarrow> bool" where
  "cellPopulated (Txt s) = (s \<noteq> [] \<and> \<not> trimsToEmpty s)"
| "cellPopulated (Num n) = (n \<noteq> 0)"
| "cellPopulated (DateObj d) = True"

subsection \<open>JavaScript values, errors and objects\<close>

text \<open>
  A value as \<^verbatim>\<open>getValues()\<close> returns it for a cell of any kind: text (the empty cell is
  the empty string), a number (whole numbers only, of a size whose text is the decimal
  notation), a boolean or a date.
\<close>

datatype js_value = JString string | JNumber int | JBool bool | JDate date

text \<open>The truthiness of a value, as \<^verbatim>\<open>if (v)\<close> and \<^verbatim>\<open>v && ...\<close> test it.\<close>

fun truthy :: "js_value \<Rightarrow> bool" where
  "truthy (JString s) = (s \<noteq> [])"
| "truthy (JNumber n) = (n \<noteq> 0)"
| "truthy (JBool b) = b"
| "truthy (JDate d) = True"

text \<open>
  The key that \<^verbatim>\<open>obj[v]\<close> reads: the text of \<open>v\<close>. The text of a date starts with the
  name of a weekday followed by a space (\<^verbatim>\<open>Tue Feb 11 2025 ...\<close>); no object below owns or
  inherits a property of such a name, so a date has no key here.
\<close>

fun propertyKey :: "js_value \<Rightarrow> string option" where
  "propertyKey (JString s) = Some s"
| "propertyKey (JNumber n) = Some (showInt n)"
| "propertyKey (JBool b) = Some (if b then ''true'' else ''false'')"
| "propertyKey (JDate d) = None"

text \<open>Calling a member that is not a function raises a \<^verbatim>\<open>TypeError\<close>.\<close>

datatype js_error = TypeError

text \<open>
  The members that every object made by \<^verbatim>\<open>{}\<close> inherits from \<^verbatim>\<open>Object.prototype\<close>
  (V8 runtime). All are functions but \<^verbatim>\<open>__proto__\<close>, which reads as the prototype object.
\<close>

definition objectPrototypeMembers :: "string list" where
  "objectPrototypeMembers =
     [''constructor'', ''__defineGetter__'', ''__defineSetter__'', ''hasOwnProperty'',
      ''__lookupGetter__'', ''__lookupSetter__'', ''isPrototypeOf'', ''propertyIsEnumerable'',
      ''toString'', ''valueOf'', ''__proto__'', ''toLocaleString'']"

text \<open>
  What \<^verbatim>\<open>obj[key]\<close> reads on an object made by \<^verbatim>\<open>{}\<close> with the own properties \<open>obj\<close>:
  the own property, else the inherited member of that name, else \<^verbatim>\<open>undefined\<close>.
\<close>

datatype 'a property = Own 'a | Inherited string | Undefined

definition getMember :: "(string \<rightharpoonup> 'a) \<Rightarrow> string \<Rightarrow> 'a property" where
  "getMember obj key =
     (case obj key of
        Some v \<Rightarrow> Own v
      | None \<Rightarrow> if key \<in> set objectPrototypeMembers then Inherited key else Undefined)"

text \<open>
  The text of an inherited member, as string concatenation and a property read with the
  member as key produce it: \<^verbatim>\<open>function toString() { [native code] }\<close> for a function
  (the constructor is the function \<^verbatim>\<open>Object\<close>), \<^verbatim>\<open>[object Object]\<close> for the prototype.
\<close>

definition memberText :: "string \<Rightarrow> string" where
  "memberText k =
     (if k = ''__proto__'' then ''[object Object]''
      else ''function '' @ (if k = ''constructor'' then ''Object'' else k) @ ''() { [native code] }'')"

text \<open>
  The \<^verbatim>\<open>length\<close> of an inherited member: the number of parameters of the function; the
  prototype object has no such property.
\<close>

definition memberLength :: "string \<Rightarrow> nat option" where
  "memberLength k =
     (if k = ''__proto__'' then None
      else if k \<in> set [''toString'', ''valueOf'', ''toLocaleString''] then Some 0
      else if k \<in> set [''__defineGetter__'', ''__defineSetter__''] then Some 2
      else Some 1)"

text \<open>
  \<^verbatim>\<open>arr.forEach(f)\<close> with the state that \<open>f\<close> updates passed along; an exception in \<open>f\<close>
  ends the loop.
\<close>

fun forEach :: "('a \<Rightarrow> 's \<Rightarrow> js_error + 's) \<Rightarrow> 'a list \<Rightarrow> 's \<Rightarrow> js_error + 's" where
  "forEach f [] s = Inr s"
| "forEach f (x # xs) s = (case f x s of Inl e \<Rightarrow> Inl e | Inr s' \<Rightarrow> forEach f xs s')"

subsection \<open>Type mapper (Utils.js, getVanType)\<close>

text \<open>
  \<^verbatim>\<open>if (mapping[serviceType]) return mapping[serviceType];
  else if (serviceType && serviceType.indexOf("Nursery Route Level") !== -1) return "Large";
  return null;\<close>
  The first test is a truthiness test: an entry mapped to the empty string would not count,
  and an inherited member counts, so that the function returns that member. In the second
  branch only text has a method \<^verbatim>\<open>indexOf\<close>: on a truthy number, boolean or date the
  call raises a \<^verbatim>\<open>TypeError\<close>.
\<close>

datatype van_type = TypeName string | Member string

definition nurseryRoute :: "js_value \<Rightarrow> js_error + van_type option" where
  "nurseryRoute serviceType =
     (if truthy serviceType
      then (case serviceType of
              JString s \<Rightarrow>
                if indexOf s ''Nursery Route Level'' \<noteq> -1 then Inr (Some (TypeName ''Large''))
                else Inr None
            | JNumber n \<Rightarrow> Inl TypeError
            | JBool b \<Rightarrow> Inl TypeError
            | JDate d \<Rightarrow> Inl TypeError)
      else Inr None)"

definition getVanType :: "js_value \<Rightarrow> js_error + van_type option" where
  "getVanType serviceType =
     (case (case propertyKey serviceType of
              None \<Rightarrow> Undefined
            | Some key \<Rightarrow> getMember (map_of VAN_TYPE_MAPPING) key) of
        Own t \<Rightarrow> if t \<noteq> [] then Inr (Some (TypeName t)) else nurseryRoute serviceType
      | Inherited k \<Rightarrow> Inr (Some (Member k))
      | Undefined \<Rightarrow> nurseryRoute serviceType)"

subsection \<open>Routes, vehicles, allocations\<close>

record route =
  routeCode :: string
  serviceType :: js_value
  dsp :: string
  wave :: string
  stagingLocation :: string

text \<open>A roster row: the columns \<^verbatim>\<open>Van ID\<close>, \<^verbatim>\<open>Type\<close> and \<^verbatim>\<open>Opnal? Y/N\<close>.\<close>

record vehicle =
  vanId :: string
  vanType :: string
  opnal :: string

record allocation =
  resRouteCode :: string
  resServiceType :: js_value
  resDSP :: string
  resWave :: string
  resStagingLocation :: string
  resVanId :: string
  resDeviceName :: string
  resVanType :: string
  resOperational :: string
  resAssociateName :: string

subsection \<open>Fleet partitioner (Utils.js, groupBy)\<close>

text \<open>
  \<^verbatim>\<open>arr.forEach(function(obj) { var key = obj[fieldName];
     if (!out[key]) out[key] = []; out[key].push(obj); })\<close>
  An array is truthy even when empty. For a key that names an inherited member and has no
  group yet, \<^verbatim>\<open>!out[key]\<close> is false, and \<^verbatim>\<open>out[key].push\<close> is not a function.
\<close>

definition groupBy_step ::
  "('a \<Rightarrow> string) \<Rightarrow> 'a \<Rightarrow> (string \<rightharpoonup> 'a list) \<Rightarrow> js_error + (string \<rightharpoonup> 'a list)" where
  "groupBy_step field obj out =
     (let key = field obj in
      case getMember out key of
        Undefined \<Rightarrow> Inr (out(key \<mapsto> [obj]))
      | Own g \<Rightarrow> Inr (out(key \<mapsto> g @ [obj]))
      | Inherited k \<Rightarrow> Inl TypeError)"

definition groupBy :: "'a list \<Rightarrow> ('a \<Rightarrow> string) \<Rightarrow> js_error + (string \<rightharpoonup> 'a list)" where
  "groupBy arr field = forEach (groupBy_step field) arr Map.empty"

definition operationalFleet :: "vehicle list \<Rightarrow> vehicle list" where
  "operationalFleet fleetObj = filter (\<lambda>f. opnal f = ''Y'') fleetObj"

subsection \<open>Allocation matcher (allocateVehiclesToRoutes)\<close>

datatype log_entry =
    NoMatchingVanType js_value string
  | NoAvailableVehicle string string
  | AssignedVan string string string

record alloc_state =
  fleetGroups :: "string \<rightharpoonup> vehicle list"
  allocationResults :: "allocation list"
  assignedVanIds :: "string list"
  logged :: "log_entry list"

definition make_result :: "route \<Rightarrow> vehicle \<Rightarrow> allocation" where
  "make_result r v =
     \<lparr> resRouteCode = routeCode r, resServiceType = serviceType r, resDSP = dsp r,
       resWave = wave r, resStagingLocation = stagingLocation r, resVanId = vanId v,
       resDeviceName = vanId v, resVanType = vanType v, resOperational = opnal v,
       resAssociateName = [] \<rparr>"

text \<open>
  The key that \<^verbatim>\<open>fleetGroups[requiredVanType]\<close> reads, which is also the text of
  \<^verbatim>\<open>requiredVanType\<close> in the log.
\<close>

fun groupKey :: "van_type \<Rightarrow> string" where
  "groupKey (TypeName t) = t"
| "groupKey (Member k) = memberText k"

text \<open>
  The body of the \<^verbatim>\<open>forEach\<close> over the routes; \<^verbatim>\<open>shift()\<close> removes the head. An
  exception of getVanType ends the run. Were \<^verbatim>\<open>fleetGroups[requiredVanType]\<close> an
  inherited member, the test \<^verbatim>\<open>.length === 0\<close> would read the member's length and
  \<^verbatim>\<open>.shift()\<close> would raise.
\<close>

definition alloc_step :: "route \<Rightarrow> alloc_state \<Rightarrow> js_error + alloc_state" where
  "alloc_step r st =
     (case getVanType (serviceType r) of
        Inl e \<Rightarrow> Inl e
      | Inr None \<Rightarrow>
          Inr (st\<lparr> logged := logged st @ [NoMatchingVanType (serviceType r) (routeCode r)] \<rparr>)
      | Inr (Some requiredVanType) \<Rightarrow>
          (let t = groupKey requiredVanType;
               noVehicle = st\<lparr> logged := logged st @ [NoAvailableVehicle t (routeCode r)] \<rparr>
           in case getMember (fleetGroups st) t of
                Undefined \<Rightarrow> Inr noVehicle
              | Own [] \<Rightarrow> Inr noVehicle
              | Own (v # rest) \<Rightarrow>
                  Inr (st\<lparr> fleetGroups := (fleetGroups st)(t \<mapsto> rest),
                          assignedVanIds := assignedVanIds st @ [vanId v],
                          allocationResults := allocationResults st @ [make_result r v],
                          logged := logged st @ [AssignedVan (vanId v) (vanType v) (routeCode r)] \<rparr>)
              | Inherited k \<Rightarrow> if memberLength k = Some 0 then Inr noVehicle else Inl TypeError))"

definition alloc_init :: "vehicle list \<Rightarrow> js_error + alloc_state" where
  "alloc_init fleetObj =
     (case groupBy (operationalFleet fleetObj) vanType of
        Inl e \<Rightarrow> Inl e
      | Inr groups \<Rightarrow>
          Inr \<lparr> fleetGroups = groups, allocationResults = [], assignedVanIds = [], logged = [] \<rparr>)"

definition alloc_run :: "route list \<Rightarrow> vehicle list \<Rightarrow> js_error + alloc_state" where
  "alloc_run dayOfOpsObj fleetObj =
     (case alloc_init fleetObj of
        Inl e \<Rightarrow> Inl e
      | Inr st \<Rightarrow> forEach alloc_step dayOfOpsObj st)"

text \<open>The returned object has exactly two members.\<close>

record allocation_outcome =
  outAllocationResults :: "allocation list"
  outAssignedVanIds :: "string list"

definition allocateVehiclesToRoutes :: "route list \<Rightarrow> vehicle list \<Rightarrow> js_error + allocation_outcome" where
  "allocateVehiclesToRoutes dayOfOpsObj fleetObj =
     (case alloc_run dayOfOpsObj fleetObj of
        Inl e \<Rightarrow> Inl e
      | Inr st \<Rightarrow>
          Inr \<lparr> outAllocationResults = allocationResults st, outAssignedVanIds = assignedVanIds st \<rparr>)"

subsection \<open>Unassigned vans (extractUnassignedRows)\<close>







subsection \<open>The Daily Details sheet\<close>

text \<open>
  Of a pace cell (columns L to P) the summary only asks whether it is truthy and numeric:
  blank, a whole number, or text that does not read as a number.
\<close>

datatype pace_cell = Blank | Count int | NotNumeric string

text \<open>
  A row of Daily Details: column A (date), B (route code), C (associate), D (asset), E (van id),
  L to P (the five checkpoints) and V (unique identifier). The other columns are never read
  or written by the functions below. A sheet is the list of its rows from row 1 (the header)
  on; the rows after the end of the list are blank.
\<close>

record ddrow =
  colA :: cell
  colB :: string
  colC :: string
  colD :: string
  colE :: string
  colsLP :: "pace_cell list"
  colV :: string

type_synonym sheet = "ddrow list"

definition blankRow :: ddrow where
  "blankRow = \<lparr> colA = Txt [], colB = [], colC = [], colD = [], colE = [], colsLP = [], colV = [] \<rparr>"

definition textPopulated :: "string \<Rightarrow> bool" where
  "textPopulated s = cellPopulated (Txt s)"

definition rowPopulated :: "ddrow \<Rightarrow> bool" where
  "rowPopulated r =
     (cellPopulated (colA r) \<or> textPopulated (colB r) \<or> textPopulated (colC r) \<or>
      textPopulated (colD r) \<or> textPopulated (colE r))"

text \<open>
  getLastPopulatedRowInColumns (Utils.js): the loop over the rows of \<^verbatim>\<open>A:E\<close>, keeping
  the 1-based number of the last row with a populated cell.
\<close>

fun lastPopulatedFrom :: "nat \<Rightarrow> sheet \<Rightarrow> nat \<Rightarrow> nat" where
  "lastPopulatedFrom i [] lastPopulatedRow = lastPopulatedRow"
| "lastPopulatedFrom i (row # rows) lastPopulatedRow =
     lastPopulatedFrom (Suc i) rows (if rowPopulated row then i + 1 else lastPopulatedRow)"

definition getLastPopulatedRowInColumns :: "sheet \<Rightarrow> nat" where
  "getLastPopulatedRowInColumns sh = lastPopulatedFrom 0 sh 0"

text \<open>A JavaScript \<^verbatim>\<open>Set\<close> of strings, in insertion order.\<close>

definition setAdd :: "string \<Rightarrow> string list \<Rightarrow> string list" where
  "setAdd x xs = (if x \<in> set xs then xs else xs @ [x])"

text \<open>
  \<^verbatim>\<open>(data[i][0] instanceof Date) ? formatDate(data[i][0]) : (data[i][0] ?? '').toString()\<close>
\<close>

fun existingDate :: "cell \<Rightarrow> string" where
  "existingDate (DateObj d) = formatDate d"
| "existingDate (Txt s) = s"
| "existingDate (Num n) = showInt n"

text \<open>\<^verbatim>\<open>sheet.getRange(2, 1, lastRow - 1, 22).getValues()\<close>: rows 2 to \<open>lastRow\<close>.\<close>

definition rowAt :: "sheet \<Rightarrow> nat \<Rightarrow> ddrow" where
  "rowAt sh i = (if i < length sh then sh ! i else blankRow)"

definition dataRows :: "sheet \<Rightarrow> nat \<Rightarrow> ddrow list" where
  "dataRows sh lastRow = map (rowAt sh) [1..<lastRow]"

definition getExistingUniqueIdentifiers :: "sheet \<Rightarrow> string \<Rightarrow> string list" where
  "getExistingUniqueIdentifiers sh dateStr =
     (let lastRow = getLastPopulatedRowInColumns sh in
      if lastRow > 1
      then fold (\<lambda>row ids. if existingDate (colA row) = dateStr then setAdd (colV row) ids else ids)
             (dataRows sh lastRow) []
      else [])"

subsection \<open>The Results sheet and the identity key\<close>

text \<open>
  A row of the Results sheet: columns 0 (route code), 5 (van id), 9 (associate name) and
  10 (unique identifier); the first row of the sheet is its header.
\<close>

record results_row =
  resCol0 :: string
  resCol5 :: string
  resCol9 :: string
  resCol10 :: string

record daily_route =
  drRouteCode :: string
  drDriverName :: string

text \<open>\<^verbatim>\<open>getTodayString() + "|" + data[i][0] + "|" + associateName + "|" + data[i][5]\<close>\<close>

definition uniqueIdentifier :: "string \<Rightarrow> string \<Rightarrow> string \<Rightarrow> string \<Rightarrow> string" where
  "uniqueIdentifier today code associateName van =
     today @ ''|'' @ code @ ''|'' @ associateName @ ''|'' @ van"

text \<open>\<^verbatim>\<open>x || "N/A"\<close> on text.\<close>

definition orNA :: "string \<Rightarrow> string" where
  "orNA x = (if x \<noteq> [] then x else ''N/A'')"

text \<open>
  \<^verbatim>\<open>routeToDriver[rc] = r["Driver name"] || "N/A"\<close> on an object made by \<^verbatim>\<open>{}\<close>: an
  assignment of text to \<^verbatim>\<open>__proto__\<close> creates no property.
\<close>

definition routeToDriver :: "daily_route list \<Rightarrow> (string \<rightharpoonup> string)" where
  "routeToDriver dailyRoutesObj =
     fold (\<lambda>r m. if drRouteCode r = ''__proto__'' then m
                   else m(drRouteCode r \<mapsto> orNA (drDriverName r))) dailyRoutesObj Map.empty"

text \<open>
  \<^verbatim>\<open>var associateName = routeToDriver[routeCode] || "N/A";\<close> For a route code that names
  an inherited member and has no entry, the name is that member; the identifier is built
  from its text, and the text is also taken as what column 9 keeps of it.
\<close>

definition rebuildRow :: "string \<Rightarrow> (string \<rightharpoonup> string) \<Rightarrow> results_row \<Rightarrow> results_row" where
  "rebuildRow today m r =
     (let associateName =
            (case getMember m (resCol0 r) of
               Own n \<Rightarrow> orNA n
             | Inherited k \<Rightarrow> memberText k
             | Undefined \<Rightarrow> ''N/A'')
      in r\<lparr> resCol9 := associateName,
            resCol10 := uniqueIdentifier today (resCol0 r) associateName (resCol5 r) \<rparr>)"

datatype sheet_error = DailyDetailsNotFound | ResultsNotFound

text \<open>
  The loop over the data rows calls \<^verbatim>\<open>getTodayString()\<close> once for each row: \<open>clock i\<close>
  is the date the clock shows when the row of index \<open>i\<close> is rebuilt.
\<close>

definition updateResultsWithDailyRoutes ::
  "(nat \<Rightarrow> date) \<Rightarrow> results_row list option \<Rightarrow> daily_route list \<Rightarrow> sheet_error + results_row list" where
  "updateResultsWithDailyRoutes clock resultsSheet dailyRoutesObj =
     (case resultsSheet of
        None \<Rightarrow> Inl ResultsNotFound
      | Some rows \<Rightarrow>
          if length rows < 2 then Inr rows
          else Inr (hd rows #
                    map (\<lambda>i. rebuildRow (getTodayString (clock i)) (routeToDriver dailyRoutesObj)
                                (tl rows ! i))
                      [0..<length (tl rows)]))"

subsection \<open>Historical append (updateDailyDetails)\<close>

text \<open>
  \<^verbatim>\<open>range.setValues(values)\<close> on the rows from 0-based index \<open>start\<close>: row \<open>start + k\<close> takes
  the \<open>k\<close>-th value in the columns of the range and keeps its other cells.
\<close>

definition padTo :: "nat \<Rightarrow> sheet \<Rightarrow> sheet" where
  "padTo n sh = sh @ replicate (n - length sh) blankRow"

definition setValues :: "('v \<Rightarrow> ddrow \<Rightarrow> ddrow) \<Rightarrow> nat \<Rightarrow> 'v list \<Rightarrow> sheet \<Rightarrow> sheet" where
  "setValues put start vals sh =
     (let p = padTo (start + length vals) sh in
      take start p @ map (\<lambda>(v, r). put v r) (zip vals (take (length vals) (drop start p)))
        @ drop (start + length vals) p)"

text \<open>\<^verbatim>\<open>var newRow = [today, r[0], r[9], "", r[5]];\<close>\<close>

record new_row =
  nrDate :: string
  nrRoute :: string
  nrAssociate :: string
  nrAsset :: string
  nrVan :: string

definition newRowOf :: "string \<Rightarrow> results_row \<Rightarrow> new_row" where
  "newRowOf today r =
     \<lparr> nrDate = today, nrRoute = resCol0 r, nrAssociate = resCol9 r, nrAsset = [], nrVan = resCol5 r \<rparr>"

definition putAE :: "new_row \<Rightarrow> ddrow \<Rightarrow> ddrow" where
  "putAE v r = r\<lparr> colA := Txt (nrDate v), colB := nrRoute v, colC := nrAssociate v,
                 colD := nrAsset v, colE := nrVan v \<rparr>"

definition putV :: "string \<Rightarrow> ddrow \<Rightarrow> ddrow" where
  "putV v r = r\<lparr> colV := v \<rparr>"

text \<open>The first loop: the truthy identifiers of the results rows, collected in a \<^verbatim>\<open>Set\<close>.\<close>

definition collectIdentifiers :: "results_row list \<Rightarrow> string list" where
  "collectIdentifiers rows =
     fold (\<lambda>r ids. if resCol10 r \<noteq> [] then setAdd (resCol10 r) ids else ids) rows []"

datatype update_result =
    NoRowsToProcess
  | DuplicatesDetected "string list"
  | Appended bool

text \<open>
  The result pairs what the run reports with the Daily Details sheet it leaves:
  \<open>DuplicatesDetected ds\<close> lists the identifiers logged as duplicates, in the order of the loop;
  \<open>Appended w\<close> says whether column V was written (\<open>w\<close>) or the count mismatch was logged.
\<close>

definition updateDailyDetails ::
  "date \<Rightarrow> sheet option \<Rightarrow> results_row list option \<Rightarrow> sheet_error + (update_result \<times> sheet)" where
  "updateDailyDetails now dailyDetailsSheet resultsSheet =
     (case dailyDetailsSheet of
        None \<Rightarrow> Inl DailyDetailsNotFound
      | Some sh \<Rightarrow>
      (case resultsSheet of
        None \<Rightarrow> Inl ResultsNotFound
      | Some resultsData \<Rightarrow>
          if length resultsData < 2 then Inr (NoRowsToProcess, sh)
          else
            (let today = getTodayString now;
                 newRows = map (newRowOf today) (tl resultsData);
                 newUniqueIdentifiers = collectIdentifiers (tl resultsData);
                 existingUniqueIdentifiers = getExistingUniqueIdentifiers sh today;
                 duplicates = filter (\<lambda>uid. uid \<in> set existingUniqueIdentifiers) newUniqueIdentifiers
             in if duplicates \<noteq> [] then Inr (DuplicatesDetected duplicates, sh)
                else
                  (let lastPopulatedRow = getLastPopulatedRowInColumns sh;
                       numNewRows = length newRows;
                       sh1 = setValues putAE lastPopulatedRow newRows sh
                   in if length newUniqueIdentifiers = numNewRows
                      then Inr (Appended True, setValues putV lastPopulatedRow newUniqueIdentifiers sh1)
                      else Inr (Appended False, sh1)))))"

subsection \<open>Pace sources (getDeliveryPaceData)\<close>

definition TIME_SLOTS :: "string list" where
  "TIME_SLOTS = [''1:40 PM'', ''3:40 PM'', ''5:40 PM'', ''7:40 PM'', ''9:40 PM'']"

text \<open>
  The object \<^verbatim>\<open>paceData\<close>: its keys in order, each holding \<^verbatim>\<open>null\<close> (\<open>None\<close>) or a cell.
\<close>

type_synonym pace_data = "(string \<times> cell option) list"

definition hasOwnProperty :: "pace_data \<Rightarrow> string \<Rightarrow> bool" where
  "hasOwnProperty pd k = (k \<in> set (map fst pd))"

definition setProperty :: "string \<Rightarrow> cell option \<Rightarrow> pace_data \<Rightarrow> pace_data" where
  "setProperty k v pd = map (\<lambda>(k', v'). if k' = k then (k', v) else (k', v')) pd"

text \<open>\<^verbatim>\<open>paceData[key]\<close>, with \<^verbatim>\<open>undefined\<close> and \<^verbatim>\<open>null\<close> both read as \<open>None\<close>.\<close>

definition getProperty :: "pace_data \<Rightarrow> string \<Rightarrow> cell option" where
  "getProperty pd k = (case map_of pd k of None \<Rightarrow> None | Some v \<Rightarrow> v)"

text \<open>\<^verbatim>\<open>s.replace(pat, rep)\<close> with a string pattern replaces the first occurrence.\<close>

fun replaceFirst :: "string \<Rightarrow> string \<Rightarrow> string \<Rightarrow> string" where
  "replaceFirst pat rep [] = (if pat = [] then rep else [])"
| "replaceFirst pat rep (c # cs) =
     (if startsWith (c # cs) pat then rep @ drop (length pat) (c # cs)
      else c # replaceFirst pat rep cs)"

text \<open>
  A row of the sheet \<^verbatim>\<open>Delivery Pace Data\<close>: columns 1 (date), 2 (van id), 5 (reporting time)
  and 6 (total deliveries); the first row is the header.
\<close>

record form_row =
  frDate :: cell
  frVanId :: string
  frReportingTime :: cell
  frDeliveryCount :: cell

text \<open>
  \<^verbatim>\<open>if (rowDate instanceof Date) rowDate = formatDate(rowDate); ... rowDate === date\<close>:
  a number is never strictly equal to the date string.
\<close>

fun rowDateIs :: "cell \<Rightarrow> string \<Rightarrow> bool" where
  "rowDateIs (DateObj d) date = (formatDate d = date)"
| "rowDateIs (Txt s) date = (s = date)"
| "rowDateIs (Num n) date = False"

text \<open>
  The reporting time as the key looked up in \<^verbatim>\<open>paceData\<close>, \<open>None\<close> when the row is skipped.
  A truthy value that is not a string is converted with \<^verbatim>\<open>String()\<close>; an empty or blank
  one is skipped. \<^verbatim>\<open>String(date)\<close> starts with the name of the weekday and never names a
  time slot, so a date cell is given no key.
\<close>

fun timeKeyOf :: "cell \<Rightarrow> string option" where
  "timeKeyOf (Txt s) =
     (if s = [] \<or> trimsToEmpty s then None else Some (replaceFirst '' (End of Day)'' [] s))"
| "timeKeyOf (Num n) =
     (if n = 0 then None else Some (replaceFirst '' (End of Day)'' [] (showInt n)))"
| "timeKeyOf (DateObj d) = None"

definition form_step :: "string \<Rightarrow> string \<Rightarrow> form_row \<Rightarrow> pace_data \<Rightarrow> pace_data" where
  "form_step van date row paceData =
     (if frVanId row = van \<and> rowDateIs (frDate row) date
      then (case timeKeyOf (frReportingTime row) of
              None \<Rightarrow> paceData
            | Some timeKey \<Rightarrow>
                if hasOwnProperty paceData timeKey
                then setProperty timeKey (Some (frDeliveryCount row)) paceData
                else paceData)
      else paceData)"

definition initialPaceData :: pace_data where
  "initialPaceData = map (\<lambda>l. (l, None)) TIME_SLOTS"

text \<open>\<^verbatim>\<open>for (var key in paceData) if (paceData[key] !== null) { hasData = true; break; }\<close>\<close>

definition hasData :: "pace_data \<Rightarrow> bool" where
  "hasData pd = list_ex (\<lambda>key. getProperty pd key \<noteq> None) (map fst pd)"

text \<open>
  The sheet as the function finds it: the spreadsheet call fails (the \<^verbatim>\<open>catch\<close> branch),
  the sheet is absent, or its rows are read.
\<close>

datatype forms_sheet = FormsCallFails | FormsSheetAbsent | FormsRows "form_row list"

definition getDeliveryPaceDataFromForms :: "forms_sheet \<Rightarrow> string \<Rightarrow> string \<Rightarrow> pace_data option" where
  "getDeliveryPaceDataFromForms forms van date =
     (case forms of
        FormsCallFails \<Rightarrow> None
      | FormsSheetAbsent \<Rightarrow> None
      | FormsRows data \<Rightarrow>
          (let paceData = fold (form_step van date) (tl data) initialPaceData
           in if hasData paceData then Some paceData else None))"

text \<open>
  getDeliveryPaceDataFromSource: the simulated data. The five parameters stand for the values
  of \<^verbatim>\<open>Math.floor(Math.random() * k)\<close> with \<open>k\<close> = 20, 30, 50, 60, 70 in the order of the calls.
\<close>

definition getDeliveryPaceDataFromSource :: "nat \<Rightarrow> nat \<Rightarrow> nat \<Rightarrow> nat \<Rightarrow> nat \<Rightarrow> pace_data" where
  "getDeliveryPaceDataFromSource r20 r30 r50 r60 r70 =
     (let baseStops = int r20 + 10 in
      [(''1:40 PM'', Some (Num baseStops)),
       (''3:40 PM'', Some (Num (baseStops + int r30 + 20))),
       (''5:40 PM'', Some (Num (baseStops + int r50 + 40))),
       (''7:40 PM'', Some (Num (baseStops + int r60 + 60))),
       (''9:40 PM'', Some (Num (baseStops + int r70 + 80)))])"

text \<open>
  getDeliveryPaceData: \<open>fallback\<close> is the record that the call of the fallback source returns
  (for the source as shipped, \<open>getDeliveryPaceDataFromSource\<close> at the draws of that call).
\<close>

definition getDeliveryPaceData :: "forms_sheet \<Rightarrow> pace_data \<Rightarrow> string \<Rightarrow> string \<Rightarrow> pace_data" where
  "getDeliveryPaceData forms fallback van date =
     (case getDeliveryPaceDataFromForms forms van date of
        Some formData \<Rightarrow> if length (map fst formData) > 0 then formData else fallback
      | None \<Rightarrow> fallback)"

subsection \<open>Daily summary (generateDeliveryPaceSummary)\<close>

text \<open>\<^verbatim>\<open>data[i][11 + j]\<close>\<close>

definition paceCell :: "ddrow \<Rightarrow> nat \<Rightarrow> pace_cell" where
  "paceCell row j = (if j < length (colsLP row) then colsLP row ! j else Blank)"

text \<open>\<^verbatim>\<open>value && !isNaN(value)\<close>: the number that passes the test, if it does.\<close>

fun truthyNumber :: "pace_cell \<Rightarrow> int option" where
  "truthyNumber Blank = None"
| "truthyNumber (Count n) = (if n \<noteq> 0 then Some n else None)"
| "truthyNumber (NotNumeric s) = None"

record van_detail =
  vdVanId :: string
  vdDriver :: string
  vdRoute :: string
  vdPace :: "(string \<times> int) list"

record summary =
  sumDate :: string
  totalVans :: nat
  vansWithData :: nat
  averagePace :: "int list"
  vanDetails :: "van_detail list"

text \<open>The accumulators of the loop: the summary under construction and \<^verbatim>\<open>counts\<close>.\<close>

record summary_acc =
  accSummary :: summary
  accCounts :: "nat list"

text \<open>The inner loop over the five time slots of one row.\<close>

record slot_acc =
  slPace :: "(string \<times> int) list"
  slSums :: "int list"
  slCounts :: "nat list"
  slHasData :: bool

definition slot_step :: "ddrow \<Rightarrow> nat \<Rightarrow> slot_acc \<Rightarrow> slot_acc" where
  "slot_step row j a =
     (case truthyNumber (paceCell row j) of
        None \<Rightarrow> a
      | Some v \<Rightarrow> \<lparr> slPace = slPace a @ [(TIME_SLOTS ! j, v)],
                    slSums = (slSums a)[j := slSums a ! j + v],
                    slCounts = (slCounts a)[j := slCounts a ! j + 1],
                    slHasData = True \<rparr>)"

definition summary_step :: "string \<Rightarrow> ddrow \<Rightarrow> summary_acc \<Rightarrow> summary_acc" where
  "summary_step date row acc =
     (if rowDateIs (colA row) date
      then (let s = accSummary acc;
                a = fold (slot_step row) [0..<length TIME_SLOTS]
                      \<lparr> slPace = [], slSums = averagePace s, slCounts = accCounts acc,
                        slHasData = False \<rparr>;
                vanData = \<lparr> vdVanId = colE row, vdDriver = colC row, vdRoute = colB row,
                            vdPace = slPace a \<rparr>
            in \<lparr> accSummary =
                   s\<lparr> totalVans := totalVans s + 1,
                      vansWithData := (if slHasData a then vansWithData s + 1 else vansWithData s),
                      averagePace := slSums a,
                      vanDetails := (if slHasData a then vanDetails s @ [vanData] else vanDetails s) \<rparr>,
                 accCounts = slCounts a \<rparr>)
      else acc)"

text \<open>
  \<^verbatim>\<open>Math.round(sum / count)\<close> on whole numbers: the nearest integer, a half rounded up.
\<close>

definition roundDiv :: "int \<Rightarrow> nat \<Rightarrow> int" where
  "roundDiv sm n = (2 * sm + int n) div (2 * int n)"

definition finishAverages :: "summary_acc \<Rightarrow> summary" where
  "finishAverages acc =
     (accSummary acc)\<lparr> averagePace :=
        map (\<lambda>(sm, n). if n > 0 then roundDiv sm n else sm)
          (zip (averagePace (accSummary acc)) (accCounts acc)) \<rparr>"

definition summarize :: "string \<Rightarrow> ddrow list \<Rightarrow> summary" where
  "summarize date data =
     finishAverages
       (fold (summary_step date) data
          \<lparr> accSummary = \<lparr> sumDate = date, totalVans = 0, vansWithData = 0,
                           averagePace = [0, 0, 0, 0, 0], vanDetails = [] \<rparr>,
            accCounts = [0, 0, 0, 0, 0] \<rparr>)"

datatype summary_error = SummarySheetNotFound | RangeWithoutRows

text \<open>
  \<^verbatim>\<open>getRange(2, 1, lastRow - 1, 22)\<close> raises when it is asked for fewer than one row.
  An empty \<open>date\<close> argument stands for today.
\<close>

definition generateDeliveryPaceSummary :: "date \<Rightarrow> sheet option \<Rightarrow> string \<Rightarrow> summary_error + summary" where
  "generateDeliveryPaceSummary now dailyDetailsSheet dateArg =
     (case dailyDetailsSheet of
        None \<Rightarrow> Inl SummarySheetNotFound
      | Some sh \<Rightarrow>
          (let date = (if dateArg = [] then getTodayString now else dateArg);
               lastRow = getLastPopulatedRowInColumns sh
           in if lastRow < 2 then Inl RangeWithoutRows
              else Inr (summarize date (dataRows sh lastRow))))"

subsection \<open>Notions used to state the properties of the matcher\<close>

text \<open>The queue of a category: empty when the category has no entry.\<close>

definition queueOf :: "(string \<rightharpoonup> vehicle list) \<Rightarrow> string \<Rightarrow> vehicle list" where
  "queueOf g t = (case g t of None \<Rightarrow> [] | Some q \<Rightarrow> q)"

text \<open>
  The groups of a list by a field, in closed form: the group of a key is the list of the
  elements with that key, in the order of the list, and a key of no element has no group.
\<close>

definition groupsOf :: "'a list \<Rightarrow> ('a \<Rightarrow> string) \<Rightarrow> (string \<rightharpoonup> 'a list)" where
  "groupsOf arr field =
     (\<lambda>k. if \<exists>x \<in> set arr. field x = k then Some (filter (\<lambda>x. field x = k) arr) else None)"

text \<open>
  A service type on which getVanType raises: a truthy value that is not text. A vehicle
  type on which groupBy raises: the name of an inherited member.
\<close>

definition isText :: "js_value \<Rightarrow> bool" where
  "isText v = (case v of JString s \<Rightarrow> True | JNumber n \<Rightarrow> False | JBool b \<Rightarrow> False | JDate d \<Rightarrow> False)"

definition namesMember :: "string \<Rightarrow> bool" where
  "namesMember k = (k \<in> set objectPrototypeMembers)"

text \<open>
  The key of the queue that a service type asks for, when getVanType returns one; the
  routes that ask for the queue \<open>t\<close>, in input order.
\<close>

definition requiredKey :: "js_value \<Rightarrow> string option" where
  "requiredKey s =
     (case getVanType s of
        Inl e \<Rightarrow> None
      | Inr None \<Rightarrow> None
      | Inr (Some requiredVanType) \<Rightarrow> Some (groupKey requiredVanType))"


text \<open>
  The pairs of route and vehicle that a run over \<open>rs\<close> forms from the queues \<open>g\<close>, written
  as a recursion on the routes; \<open>forEach_alloc\<close> below shows that the loop of
  allocateVehiclesToRoutes, when it raises no exception, produces exactly these pairs.
\<close>

fun matches :: "route list \<Rightarrow> (string \<rightharpoonup> vehicle list) \<Rightarrow> (route \<times> vehicle) list" where
  "matches [] g = []"
| "matches (r # rs) g =
     (case requiredKey (serviceType r) of
        None \<Rightarrow> matches rs g
      | Some t \<Rightarrow>
          (case queueOf g t of
             [] \<Rightarrow> matches rs g
           | v # rest \<Rightarrow> (r, v) # matches rs (g(t \<mapsto> rest))))"

text \<open>Every queue holds vehicles of its own category only.\<close>

definition wellGrouped :: "(string \<rightharpoonup> vehicle list) \<Rightarrow> bool" where
  "wellGrouped g = (\<forall>t q. g t = Some q \<longrightarrow> (\<forall>v \<in> set q. vanType v = t))"

text \<open>The route code that a log entry names, and whether the entry records an assignment.\<close>

fun logRoute :: "log_entry \<Rightarrow> string" where
  "logRoute (NoMatchingVanType s c) = c"
| "logRoute (NoAvailableVehicle t c) = c"
| "logRoute (AssignedVan v t c) = c"

fun isAssigned :: "log_entry \<Rightarrow> bool" where
  "isAssigned (AssignedVan v t c) = True"
| "isAssigned e = False"

subsection \<open>The partitioner on a store of arrays\<close>










subsection \<open>Concrete inputs\<close>

definition routeCX9 :: route where
  "routeCX9 = \<lparr> routeCode = ''CX9'', serviceType = JString ''Standard Parcel - Large Van'',
                 dsp = ''BWAY'', wave = ''Wave 1'', stagingLocation = ''STG.A1'' \<rparr>"

definition routeCX10 :: route where
  "routeCX10 = \<lparr> routeCode = ''CX10'', serviceType = JString ''Standard Parcel - Large Van'',
                  dsp = ''BWAY'', wave = ''Wave 1'', stagingLocation = ''STG.A2'' \<rparr>"

definition routeCX11 :: route where
  "routeCX11 = \<lparr> routeCode = ''CX11'', serviceType = JString ''Unknown Service'',
                  dsp = ''BWAY'', wave = ''Wave 2'', stagingLocation = ''STG.B1'' \<rparr>"

definition vanBW1 :: vehicle where
  "vanBW1 = \<lparr> vanId = ''BW1'', vanType = ''Large'', opnal = ''Y'' \<rparr>"

definition vanBW2 :: vehicle where
  "vanBW2 = \<lparr> vanId = ''BW2'', vanType = ''Large'', opnal = ''Y'' \<rparr>"

definition vanBW3 :: vehicle where
  "vanBW3 = \<lparr> vanId = ''BW3'', vanType = ''Step Van'', opnal = ''N'' \<rparr>"


definition routeCX12 :: route where
  "routeCX12 = \<lparr> routeCode = ''CX12'', serviceType = JNumber 5,
                  dsp = ''BWAY'', wave = ''Wave 2'', stagingLocation = ''STG.B2'' \<rparr>"

definition routeCX13 :: route where
  "routeCX13 = \<lparr> routeCode = ''CX13'', serviceType = JString ''constructor'',
                  dsp = ''BWAY'', wave = ''Wave 2'', stagingLocation = ''STG.B3'' \<rparr>"


definition vanBW5 :: vehicle where
  "vanBW5 = \<lparr> vanId = ''BW5'', vanType = ''function Object() { [native code] }'', opnal = ''Y'' \<rparr>"



definition allocationCX9 :: allocation where
  "allocationCX9 =
     \<lparr> resRouteCode = ''CX9'', resServiceType = JString ''Standard Parcel - Large Van'',
       resDSP = ''BWAY'', resWave = ''Wave 1'', resStagingLocation = ''STG.A1'',
       resVanId = ''BW1'', resDeviceName = ''BW1'', resVanType = ''Large'',
       resOperational = ''Y'', resAssociateName = [] \<rparr>"

definition allocationCX10 :: allocation where
  "allocationCX10 =
     \<lparr> resRouteCode = ''CX10'', resServiceType = JString ''Standard Parcel - Large Van'',
       resDSP = ''BWAY'', resWave = ''Wave 1'', resStagingLocation = ''STG.A2'',
       resVanId = ''BW2'', resDeviceName = ''BW2'', resVanType = ''Large'',
       resOperational = ''Y'', resAssociateName = [] \<rparr>"

definition allocationCX13 :: allocation where
  "allocationCX13 =
     \<lparr> resRouteCode = ''CX13'', resServiceType = JString ''constructor'',
       resDSP = ''BWAY'', resWave = ''Wave 2'', resStagingLocation = ''STG.B3'',
       resVanId = ''BW5'', resDeviceName = ''BW5'',
       resVanType = ''function Object() { [native code] }'',
       resOperational = ''Y'', resAssociateName = [] \<rparr>"



definition feb11 :: date where
  "feb11 = Date 2025 2 11"

definition feb12 :: date where
  "feb12 = Date 2025 2 12"

definition ddRowCX9Late :: ddrow where
  "ddRowCX9Late = \<lparr> colA = Txt ''02/12/2025'', colB = ''CX9'', colC = ''Marquis Thomas'', colD = [],
                     colE = ''BW2'', colsLP = [], colV = ''02/11/2025|CX9|Marquis Thomas|BW2'' \<rparr>"

definition ddHeader :: ddrow where
  "ddHeader = \<lparr> colA = Txt ''Date'', colB = ''Route'', colC = ''Associate'', colD = ''Asset'',
                 colE = ''Van ID'', colsLP = [], colV = ''Unique Identifier'' \<rparr>"

definition ddRowCX9 :: ddrow where
  "ddRowCX9 = \<lparr> colA = Txt ''02/11/2025'', colB = ''CX9'', colC = ''Marquis Thomas'', colD = [],
                 colE = ''BW2'', colsLP = [], colV = ''02/11/2025|CX9|Marquis Thomas|BW2'' \<rparr>"

definition resHeader :: results_row where
  "resHeader = \<lparr> resCol0 = ''Route Code'', resCol5 = ''Van ID'', resCol9 = ''Associate Name'',
                  resCol10 = ''Unique Identifier'' \<rparr>"

definition resRowCX9 :: results_row where
  "resRowCX9 = \<lparr> resCol0 = ''CX9'', resCol5 = ''BW2'', resCol9 = ''Marquis Thomas'',
                  resCol10 = ''02/11/2025|CX9|Marquis Thomas|BW2'' \<rparr>"

definition resRowCX7 :: results_row where
  "resRowCX7 = \<lparr> resCol0 = ''CX7'', resCol5 = ''BW3'', resCol9 = ''N/A'',
                  resCol10 = ''02/11/2025|CX7|N/A|BW3'' \<rparr>"


definition unkeyedRowCX9 :: ddrow where
  "unkeyedRowCX9 = \<lparr> colA = Txt ''02/11/2025'', colB = ''CX9'', colC = ''Marquis Thomas'', colD = [],
                      colE = ''BW2'', colsLP = [], colV = [] \<rparr>"

definition dailyRouteCX9 :: daily_route where
  "dailyRouteCX9 = \<lparr> drRouteCode = ''CX9'', drDriverName = ''Marquis Thomas'' \<rparr>"

definition ddRowCX7 :: ddrow where
  "ddRowCX7 = \<lparr> colA = Txt ''02/11/2025'', colB = ''CX7'', colC = ''N/A'', colD = [],
                 colE = ''BW3'', colsLP = [], colV = ''02/11/2025|CX7|N/A|BW3'' \<rparr>"

definition formHeader :: form_row where
  "formHeader = \<lparr> frDate = Txt ''Date'', frVanId = ''Van ID'', frReportingTime = Txt ''Reporting Time'',
                   frDeliveryCount = Txt ''Total Deliveries'' \<rparr>"

definition formRowBW2 :: form_row where
  "formRowBW2 = \<lparr> frDate = DateObj (Date 2025 2 11), frVanId = ''BW2'',
                   frReportingTime = Txt ''9:40 PM (End of Day)'', frDeliveryCount = Num 112 \<rparr>"

definition fallbackRecord :: pace_data where
  "fallbackRecord = [(''1:40 PM'', Some (Num 5)), (''3:40 PM'', None), (''5:40 PM'', None),
                     (''7:40 PM'', None), (''9:40 PM'', None)]"

definition emptyRecord :: pace_data where
  "emptyRecord = [(''1:40 PM'', None), (''3:40 PM'', None), (''5:40 PM'', None),
                  (''7:40 PM'', None), (''9:40 PM'', None)]"

definition formRecordBW2 :: pace_data where
  "formRecordBW2 = [(''1:40 PM'', None), (''3:40 PM'', None), (''5:40 PM'', None),
                    (''7:40 PM'', None), (''9:40 PM'', Some (Num 112))]"

subsection \<open>Notions used to state the properties of the summary\<close>

text \<open>The value a pace cell adds to the sum of its slot, and whether it is counted.\<close>

definition slotValue :: "ddrow \<Rightarrow> nat \<Rightarrow> int" where
  "slotValue row j = (case truthyNumber (paceCell row j) of None \<Rightarrow> 0 | Some v \<Rightarrow> v)"

definition slotCounted :: "ddrow \<Rightarrow> nat \<Rightarrow> bool" where
  "slotCounted row j = (truthyNumber (paceCell row j) \<noteq> None)"

definition rowsOfDate :: "string \<Rightarrow> ddrow list \<Rightarrow> ddrow list" where
  "rowsOfDate date data = filter (\<lambda>row. rowDateIs (colA row) date) data"

definition zeroRowBW2 :: ddrow where
  "zeroRowBW2 = \<lparr> colA = Txt ''02/11/2025'', colB = ''CX9'', colC = ''Marquis Thomas'', colD = [],
                   colE = ''BW2'', colsLP = [Count 0, Blank, Blank, Blank, Blank],
                   colV = ''02/11/2025|CX9|Marquis Thomas|BW2'' \<rparr>"

definition tenRowBW3 :: ddrow where
  "tenRowBW3 = \<lparr> colA = Txt ''02/11/2025'', colB = ''CX7'', colC = ''N/A'', colD = [],
                  colE = ''BW3'', colsLP = [Count 10, Blank, Blank, Blank, Blank],
                  colV = ''02/11/2025|CX7|N/A|BW3'' \<rparr>"

section \<open>Properties\<close>

subsection \<open>Strings\<close>

lemma startsWith_prefix: "startsWith hay needle = prefix needle hay"
  by (induction hay needle rule: startsWith.induct) auto

lemma indexOfFrom_sublist: "(indexOfFrom i hay needle \<noteq> -1) = sublist needle hay"
proof (induction hay arbitrary: i)
  case Nil
  show ?case by simp
next
  case (Cons h hs)
  show ?case
    by (simp add: Cons.IH startsWith_prefix sublist_Cons_right)
qed

lemma indexOf_sublist: "(indexOf hay needle \<noteq> -1) = sublist needle hay"
  by (simp add: indexOf_def indexOfFrom_sublist)

subsection \<open>Objects and loops\<close>

lemma getMember_plain:
  "\<not> namesMember k \<Longrightarrow> getMember obj k = (case obj k of None \<Rightarrow> Undefined | Some v \<Rightarrow> Own v)"
  by (simp add: getMember_def namesMember_def split: option.splits)

lemma getMember_inherited:
  "obj k = None \<Longrightarrow> namesMember k \<Longrightarrow> getMember obj k = Inherited k"
  by (simp add: getMember_def namesMember_def)


lemma memberText_plain: "\<not> namesMember (memberText k)"
  by (simp add: memberText_def namesMember_def objectPrototypeMembers_def)

subsection \<open>Grouping\<close>

lemma forEach_groupBy_step:
  assumes "\<forall>k. out k \<noteq> None \<longrightarrow> \<not> namesMember k"
  shows "forEach (groupBy_step field) arr out =
     (if \<exists>x \<in> set arr. namesMember (field x) then Inl TypeError
      else Inr (\<lambda>k. if \<exists>x \<in> set arr. field x = k
                     then Some ((case out k of None \<Rightarrow> [] | Some g \<Rightarrow> g) @ filter (\<lambda>x. field x = k) arr)
                     else out k))"
  using assms
proof (induction arr arbitrary: out)
  case Nil
  show ?case by simp
next
  case (Cons a arr)
  show ?case
  proof (cases "namesMember (field a)")
    case True
    with Cons.prems have "out (field a) = None" by blast
    then have "groupBy_step field a out = Inl TypeError"
      using True by (simp add: groupBy_step_def Let_def getMember_inherited)
    with True show ?thesis by simp
  next
    case False
    let ?out = "out(field a \<mapsto> (case out (field a) of None \<Rightarrow> [] | Some g \<Rightarrow> g) @ [a])"
    have step: "groupBy_step field a out = Inr ?out"
      using False by (simp add: groupBy_step_def Let_def getMember_plain split: option.splits)
    have inv: "\<forall>k. ?out k \<noteq> None \<longrightarrow> \<not> namesMember k"
      using Cons.prems False by simp
    have "forEach (groupBy_step field) (a # arr) out = forEach (groupBy_step field) arr ?out"
      by (simp add: step)
    also have "\<dots> =
     (if \<exists>x \<in> set arr. namesMember (field x) then Inl TypeError
      else Inr (\<lambda>k. if \<exists>x \<in> set arr. field x = k
                     then Some ((case ?out k of None \<Rightarrow> [] | Some g \<Rightarrow> g) @ filter (\<lambda>x. field x = k) arr)
                     else ?out k))"
      by (rule Cons.IH [OF inv])
    also have "\<dots> =
     (if \<exists>x \<in> set (a # arr). namesMember (field x) then Inl TypeError
      else Inr (\<lambda>k. if \<exists>x \<in> set (a # arr). field x = k
                     then Some ((case out k of None \<Rightarrow> [] | Some g \<Rightarrow> g) @ filter (\<lambda>x. field x = k) (a # arr))
                     else out k))"
      using False by (auto intro!: ext)
    finally show ?thesis .
  qed
qed

lemma groupBy_eq:
  "groupBy arr field =
     (if \<exists>x \<in> set arr. namesMember (field x) then Inl TypeError else Inr (groupsOf arr field))"
proof -
  have e: "\<forall>k. (Map.empty :: string \<rightharpoonup> 'a list) k \<noteq> None \<longrightarrow> \<not> namesMember k" by simp
  have g: "groupsOf arr field =
      (\<lambda>k. if \<exists>x \<in> set arr. field x = k
            then Some ((case (Map.empty :: string \<rightharpoonup> 'a list) k of None \<Rightarrow> [] | Some g \<Rightarrow> g)
                         @ filter (\<lambda>x. field x = k) arr)
            else Map.empty k)"
    by (rule ext) (simp add: groupsOf_def)
  show ?thesis
    unfolding groupBy_def g by (rule forEach_groupBy_step [OF e])
qed

lemma groupsOf_queue: "queueOf (groupsOf arr field) k = filter (\<lambda>x. field x = k) arr"
  by (auto simp: queueOf_def groupsOf_def filter_empty_conv)


lemma queueOf_upd: "queueOf (g(t \<mapsto> q)) k = (if k = t then q else queueOf g k)"
  by (simp add: queueOf_def)

lemma wellGrouped_groupsOf: "wellGrouped (groupsOf arr vanType)"
  by (auto simp: wellGrouped_def groupsOf_def split: if_splits)

subsection \<open>The type mapper\<close>

lemma showNat_last: "showNat n \<noteq> [] \<and> last (showNat n) = digit n"
proof (induction n rule: showNat.induct)
  case (1 n)
  show ?case
  proof (cases "n < 10")
    case True
    then have "showNat n = [digit n]" by (subst showNat.simps) (simp del: showNat.simps)
    then show ?thesis by (simp del: showNat.simps)
  next
    case False
    then have "showNat n = showNat (n div 10) @ [digit n]"
      by (subst showNat.simps) (simp del: showNat.simps)
    then show ?thesis by (simp del: showNat.simps)
  qed
qed

lemma digit_cases: "digit n \<in> set ''0123456789''"
  unfolding digit_def by (rule nth_mem) simp

lemma showInt_last: "showInt n \<noteq> [] \<and> last (showInt n) \<in> set ''0123456789''"
  using showNat_last digit_cases by (simp add: showInt_def del: showNat.simps)

lemma number_key: "map_of VAN_TYPE_MAPPING (showInt n) = None \<and> \<not> namesMember (showInt n)"
proof -
  have "\<And>k. k \<in> set (map fst VAN_TYPE_MAPPING) \<union> set objectPrototypeMembers \<Longrightarrow>
          last k \<notin> set ''0123456789''"
    by (auto simp: VAN_TYPE_MAPPING_def objectPrototypeMembers_def)
  with showInt_last [of n] have "showInt n \<notin> set (map fst VAN_TYPE_MAPPING) \<union> set objectPrototypeMembers"
    by blast
  then show ?thesis by (simp add: namesMember_def map_of_eq_None_iff)
qed

lemma boolean_key:
  "map_of VAN_TYPE_MAPPING (if b then ''true'' else ''false'') = None
   \<and> \<not> namesMember (if b then ''true'' else ''false'')"
  by (simp add: VAN_TYPE_MAPPING_def namesMember_def objectPrototypeMembers_def)

lemma mapping_values: "map_of VAN_TYPE_MAPPING s = Some t \<Longrightarrow> t \<noteq> [] \<and> \<not> namesMember t"
  by (auto simp: VAN_TYPE_MAPPING_def namesMember_def objectPrototypeMembers_def split: if_splits)

lemma nursery_test:
  "(s \<noteq> [] \<and> indexOf s ''Nursery Route Level'' \<noteq> -1) = sublist ''Nursery Route Level'' s"
  by (cases s) (simp_all add: indexOf_sublist)

lemma nurseryRoute_text:
  "nurseryRoute (JString s) =
     (if sublist ''Nursery Route Level'' s then Inr (Some (TypeName ''Large'')) else Inr None)"
  using nursery_test [of s] by (auto simp: nurseryRoute_def)

lemma getVanType_text:
  "getVanType (JString s) =
     (case map_of VAN_TYPE_MAPPING s of
        Some c \<Rightarrow> Inr (Some (TypeName c))
      | None \<Rightarrow>
          if namesMember s then Inr (Some (Member s))
          else if sublist ''Nursery Route Level'' s then Inr (Some (TypeName ''Large''))
          else Inr None)"
proof (cases "map_of VAN_TYPE_MAPPING s")
  case None
  then show ?thesis
    by (simp add: getVanType_def getMember_def namesMember_def nurseryRoute_text)
next
  case (Some t)
  then show ?thesis using mapping_values [OF Some] by (simp add: getVanType_def getMember_def)
qed

lemma getVanType_other:
  "\<not> isText v \<Longrightarrow> getVanType v = (if truthy v then Inl TypeError else Inr None)"
proof (cases v)
  case (JString s)
  then show "\<not> isText v \<Longrightarrow> ?thesis" by (simp add: isText_def)
next
  case (JNumber n)
  then show ?thesis
    using number_key [of n]
    by (simp add: getVanType_def getMember_def namesMember_def nurseryRoute_def)
next
  case (JBool b)
  then show ?thesis
    using boolean_key [of b]
    by (simp add: getVanType_def getMember_def namesMember_def nurseryRoute_def)
next
  case (JDate d)
  then show ?thesis by (simp add: getVanType_def nurseryRoute_def)
qed

lemma getVanType_raises: "(getVanType v = Inl e) = (truthy v \<and> \<not> isText v)"
proof (cases "isText v")
  case True
  then obtain s where "v = JString s" by (cases v) (simp_all add: isText_def)
  then show ?thesis using True by (simp add: getVanType_text split: option.splits)
next
  case False
  then show ?thesis by (cases e) (simp add: getVanType_other)
qed

lemma groupKey_plain: "getVanType v = Inr (Some requiredVanType) \<Longrightarrow> \<not> namesMember (groupKey requiredVanType)"
proof (cases "isText v")
  case True
  assume g: "getVanType v = Inr (Some requiredVanType)"
  from True obtain s where v: "v = JString s" by (cases v) (simp_all add: isText_def)
  have large: "\<not> namesMember ''Large''"
    by (simp add: namesMember_def objectPrototypeMembers_def)
  show ?thesis
  proof (cases "map_of VAN_TYPE_MAPPING s")
    case None
    with g v large show ?thesis
      by (auto simp: getVanType_text memberText_plain split: if_splits)
  next
    case (Some t)
    with g v mapping_values [OF Some] show ?thesis by (auto simp: getVanType_text)
  qed
next
  case False
  assume "getVanType v = Inr (Some requiredVanType)"
  with False show ?thesis by (simp add: getVanType_other split: if_splits)
qed

subsection \<open>The matcher loop and the pairs it forms\<close>

lemma requiredKey_simps:
  "getVanType s = Inl e \<Longrightarrow> requiredKey s = None"
  "getVanType s = Inr None \<Longrightarrow> requiredKey s = None"
  "getVanType s = Inr (Some requiredVanType) \<Longrightarrow> requiredKey s = Some (groupKey requiredVanType)"
  by (simp_all add: requiredKey_def)

lemma alloc_step_raises:
  "getVanType (serviceType r) = Inl e \<Longrightarrow> alloc_step r st = Inl e"
  by (simp add: alloc_step_def)

lemma alloc_step_unresolved:
  "getVanType (serviceType r) = Inr None \<Longrightarrow>
   alloc_step r st = Inr (st\<lparr> logged := logged st @ [NoMatchingVanType (serviceType r) (routeCode r)] \<rparr>)"
  by (simp add: alloc_step_def)

lemma alloc_step_empty:
  assumes "getVanType (serviceType r) = Inr (Some requiredVanType)"
    and "queueOf (fleetGroups st) (groupKey requiredVanType) = []"
  shows "alloc_step r st =
     Inr (st\<lparr> logged := logged st @ [NoAvailableVehicle (groupKey requiredVanType) (routeCode r)] \<rparr>)"
  using assms groupKey_plain [OF assms(1)]
  by (auto simp: alloc_step_def Let_def getMember_plain queueOf_def split: option.splits list.splits)

lemma alloc_step_assign:
  assumes "getVanType (serviceType r) = Inr (Some requiredVanType)"
    and "queueOf (fleetGroups st) (groupKey requiredVanType) = v # rest"
  shows "\<exists>st'. alloc_step r st = Inr st'
      \<and> fleetGroups st' = (fleetGroups st)(groupKey requiredVanType \<mapsto> rest)
      \<and> allocationResults st' = allocationResults st @ [make_result r v]
      \<and> assignedVanIds st' = assignedVanIds st @ [vanId v]
      \<and> logged st' = logged st @ [AssignedVan (vanId v) (vanType v) (routeCode r)]"
  using assms groupKey_plain [OF assms(1)]
  by (auto simp: alloc_step_def Let_def getMember_plain queueOf_def split: option.splits list.splits)

lemma forEach_alloc:
  assumes "\<forall>r \<in> set rs. getVanType (serviceType r) \<noteq> Inl TypeError"
  shows "\<exists>st'. forEach alloc_step rs st = Inr st'
      \<and> allocationResults st' =
          allocationResults st @ map (\<lambda>(r, v). make_result r v) (matches rs (fleetGroups st))
      \<and> assignedVanIds st' =
          assignedVanIds st @ map (\<lambda>(r, v). vanId v) (matches rs (fleetGroups st))
      \<and> map logRoute (logged st') = map logRoute (logged st) @ map routeCode rs
      \<and> map logRoute (filter isAssigned (logged st')) =
          map logRoute (filter isAssigned (logged st)) @ map routeCode (map fst (matches rs (fleetGroups st)))"
  using assms
proof (induction rs arbitrary: st)
  case Nil
  show ?case by simp
next
  case (Cons r rs)
  from Cons.prems have safe: "\<forall>r \<in> set rs. getVanType (serviceType r) \<noteq> Inl TypeError"
    and head: "getVanType (serviceType r) \<noteq> Inl TypeError" by simp_all
  show ?case
  proof (cases "getVanType (serviceType r)")
    case (Inl e)
    with head show ?thesis by (cases e) simp
  next
    case (Inr res)
    show ?thesis
    proof (cases res)
      case None
      with Inr have g: "getVanType (serviceType r) = Inr None" by simp
      let ?st1 = "st\<lparr> logged := logged st @ [NoMatchingVanType (serviceType r) (routeCode r)] \<rparr>"
      from Cons.IH [OF safe, of ?st1] obtain st' where
        "forEach alloc_step rs ?st1 = Inr st'"
        "allocationResults st' =
          allocationResults ?st1 @ map (\<lambda>(r, v). make_result r v) (matches rs (fleetGroups ?st1))"
        "assignedVanIds st' =
          assignedVanIds ?st1 @ map (\<lambda>(r, v). vanId v) (matches rs (fleetGroups ?st1))"
        "map logRoute (logged st') = map logRoute (logged ?st1) @ map routeCode rs"
        "map logRoute (filter isAssigned (logged st')) =
          map logRoute (filter isAssigned (logged ?st1)) @ map routeCode (map fst (matches rs (fleetGroups ?st1)))"
        by blast
      then show ?thesis
        by (simp add: alloc_step_unresolved [OF g] requiredKey_simps(2) [OF g])
    next
      case (Some requiredVanType)
      with Inr have g: "getVanType (serviceType r) = Inr (Some requiredVanType)" by simp
      let ?t = "groupKey requiredVanType"
      show ?thesis
      proof (cases "queueOf (fleetGroups st) ?t")
        case Nil
        let ?st1 = "st\<lparr> logged := logged st @ [NoAvailableVehicle ?t (routeCode r)] \<rparr>"
        from Cons.IH [OF safe, of ?st1] obtain st' where
          "forEach alloc_step rs ?st1 = Inr st'"
          "allocationResults st' =
            allocationResults ?st1 @ map (\<lambda>(r, v). make_result r v) (matches rs (fleetGroups ?st1))"
          "assignedVanIds st' =
            assignedVanIds ?st1 @ map (\<lambda>(r, v). vanId v) (matches rs (fleetGroups ?st1))"
          "map logRoute (logged st') = map logRoute (logged ?st1) @ map routeCode rs"
          "map logRoute (filter isAssigned (logged st')) =
            map logRoute (filter isAssigned (logged ?st1)) @ map routeCode (map fst (matches rs (fleetGroups ?st1)))"
          by blast
        then show ?thesis
          using Nil by (simp add: alloc_step_empty [OF g Nil] requiredKey_simps(3) [OF g])
      next
        case q: (Cons v rest)
        from alloc_step_assign [OF g q] obtain st1 where
          s: "alloc_step r st = Inr st1"
          and s1: "fleetGroups st1 = (fleetGroups st)(?t \<mapsto> rest)"
          and s2: "allocationResults st1 = allocationResults st @ [make_result r v]"
          and s3: "assignedVanIds st1 = assignedVanIds st @ [vanId v]"
          and s4: "logged st1 = logged st @ [AssignedVan (vanId v) (vanType v) (routeCode r)]"
          by blast
        have m: "matches (r # rs) (fleetGroups st) = (r, v) # matches rs ((fleetGroups st)(?t \<mapsto> rest))"
          using q by (simp add: requiredKey_simps(3) [OF g])
        from Cons.IH [OF safe, of st1] obtain st' where
          f: "forEach alloc_step rs st1 = Inr st'"
          and f1: "allocationResults st' =
            allocationResults st1 @ map (\<lambda>(r, v). make_result r v) (matches rs (fleetGroups st1))"
          and f2: "assignedVanIds st' =
            assignedVanIds st1 @ map (\<lambda>(r, v). vanId v) (matches rs (fleetGroups st1))"
          and f3: "map logRoute (logged st') = map logRoute (logged st1) @ map routeCode rs"
          and f4: "map logRoute (filter isAssigned (logged st')) =
            map logRoute (filter isAssigned (logged st1)) @ map routeCode (map fst (matches rs (fleetGroups st1)))"
          by blast
        have "forEach alloc_step (r # rs) st = Inr st'" by (simp add: s f)
        moreover have "allocationResults st' =
            allocationResults st @ map (\<lambda>(r, v). make_result r v) (matches (r # rs) (fleetGroups st))"
          unfolding f1 s1 s2 m by simp
        moreover have "assignedVanIds st' =
            assignedVanIds st @ map (\<lambda>(r, v). vanId v) (matches (r # rs) (fleetGroups st))"
          unfolding f2 s1 s3 m by simp
        moreover have "map logRoute (logged st') = map logRoute (logged st) @ map routeCode (r # rs)"
          unfolding f3 s4 by simp
        moreover have "map logRoute (filter isAssigned (logged st')) =
            map logRoute (filter isAssigned (logged st)) @ map routeCode (map fst (matches (r # rs) (fleetGroups st)))"
          unfolding f4 s1 s4 m by simp
        ultimately show ?thesis by blast
      qed
    qed
  qed
qed

lemma forEach_alloc_raises:
  assumes "\<exists>r \<in> set rs. getVanType (serviceType r) = Inl TypeError"
  shows "forEach alloc_step rs st = Inl TypeError"
  using assms
proof (induction rs arbitrary: st)
  case Nil
  then show ?case by simp
next
  case (Cons r rs)
  show ?case
  proof (cases "getVanType (serviceType r) = Inl TypeError")
    case True
    then show ?thesis by (simp add: alloc_step_raises)
  next
    case False
    with Cons.prems have rest: "\<exists>r \<in> set rs. getVanType (serviceType r) = Inl TypeError" by simp
    from False have "\<forall>x \<in> set [r]. getVanType (serviceType x) \<noteq> Inl TypeError" by simp
    from forEach_alloc [OF this, of st] obtain st1 where "forEach alloc_step [r] st = Inr st1"
      by blast
    then have "alloc_step r st = Inr st1" by (simp split: sum.splits)
    then show ?thesis using Cons.IH [OF rest, of st1] by simp
  qed
qed

lemma matches_subseq: "subseq (map fst (matches rs g)) rs"
  by (induction rs arbitrary: g) (auto split: option.splits list.splits)

lemma wellGrouped_pop:
  "wellGrouped g \<Longrightarrow> queueOf g t = v # rest \<Longrightarrow> wellGrouped (g(t \<mapsto> rest))"
  by (auto simp: wellGrouped_def queueOf_def split: option.splits)

lemma wellGrouped_head:
  "wellGrouped g \<Longrightarrow> queueOf g t = v # rest \<Longrightarrow> vanType v = t"
  by (auto simp: wellGrouped_def queueOf_def split: option.splits)

lemma matches_count:
  "wellGrouped g \<Longrightarrow>
   count_list (map snd (matches rs g)) x \<le> count_list (queueOf g (vanType x)) x"
proof (induction rs arbitrary: g)
  case Nil
  show ?case by simp
next
  case (Cons r rs)
  show ?case
  proof (cases "requiredKey (serviceType r)")
    case None
    then show ?thesis using Cons.IH [OF Cons.prems] by simp
  next
    case (Some t)
    show ?thesis
    proof (cases "queueOf g t")
      case Nil
      with Some show ?thesis using Cons.IH [OF Cons.prems] by simp
    next
      case (Cons v rest)
      have wg: "wellGrouped (g(t \<mapsto> rest))"
        using Cons.prems Cons by (rule wellGrouped_pop)
      have vt: "vanType v = t"
        using Cons.prems Cons by (rule wellGrouped_head)
      have ih: "count_list (map snd (matches rs (g(t \<mapsto> rest)))) x
                  \<le> count_list (queueOf (g(t \<mapsto> rest)) (vanType x)) x"
        using Cons.IH [OF wg] .
      show ?thesis
      proof (cases "vanType x = t")
        case True
        then have "queueOf (g(t \<mapsto> rest)) (vanType x) = rest"
          by (simp add: queueOf_def)
        with ih Some Cons True show ?thesis by simp
      next
        case False
        then have "queueOf (g(t \<mapsto> rest)) (vanType x) = queueOf g (vanType x)"
          by (simp add: queueOf_def)
        moreover from False vt have "x \<noteq> v" by auto
        ultimately show ?thesis using ih Some Cons by simp
      qed
    qed
  qed
qed


subsection \<open>The partitioner on the store\<close>





subsection \<open>The run of the matcher\<close>

lemma alloc_init_eq:
  "alloc_init f =
     (if \<exists>v \<in> set f. opnal v = ''Y'' \<and> namesMember (vanType v) then Inl TypeError
      else Inr \<lparr> fleetGroups = groupsOf (operationalFleet f) vanType, allocationResults = [],
                 assignedVanIds = [], logged = [] \<rparr>)"
proof -
  have "(\<exists>x \<in> set (operationalFleet f). namesMember (vanType x)) =
        (\<exists>v \<in> set f. opnal v = ''Y'' \<and> namesMember (vanType v))"
    by (auto simp: operationalFleet_def)
  then show ?thesis by (simp add: alloc_init_def groupBy_eq)
qed

lemma alloc_run_raises:
  assumes "(\<exists>v \<in> set f. opnal v = ''Y'' \<and> namesMember (vanType v))
         \<or> (\<exists>r \<in> set rs. truthy (serviceType r) \<and> \<not> isText (serviceType r))"
  shows "alloc_run rs f = Inl TypeError"
proof (cases "\<exists>v \<in> set f. opnal v = ''Y'' \<and> namesMember (vanType v)")
  case True
  then show ?thesis by (simp add: alloc_run_def alloc_init_eq)
next
  case False
  with assms have "\<exists>r \<in> set rs. getVanType (serviceType r) = Inl TypeError"
    by (simp add: getVanType_raises)
  then show ?thesis
    using False by (simp add: alloc_run_def alloc_init_eq forEach_alloc_raises)
qed

lemma alloc_run_returns:
  assumes "\<not> ((\<exists>v \<in> set f. opnal v = ''Y'' \<and> namesMember (vanType v))
         \<or> (\<exists>r \<in> set rs. truthy (serviceType r) \<and> \<not> isText (serviceType r)))"
  shows "\<exists>st. alloc_run rs f = Inr st
      \<and> allocationResults st =
          map (\<lambda>(r, v). make_result r v) (matches rs (groupsOf (operationalFleet f) vanType))
      \<and> assignedVanIds st =
          map (\<lambda>(r, v). vanId v) (matches rs (groupsOf (operationalFleet f) vanType))
      \<and> map logRoute (logged st) = map routeCode rs
      \<and> map logRoute (filter isAssigned (logged st)) =
          map routeCode (map fst (matches rs (groupsOf (operationalFleet f) vanType)))"
proof -
  let ?st0 = "\<lparr> fleetGroups = groupsOf (operationalFleet f) vanType, allocationResults = [],
                 assignedVanIds = [], logged = [] \<rparr>"
  from assms have init: "alloc_init f = Inr ?st0" by (simp add: alloc_init_eq)
  from assms have "\<forall>r \<in> set rs. getVanType (serviceType r) \<noteq> Inl TypeError"
    by (simp add: getVanType_raises)
  from forEach_alloc [OF this, of ?st0] obtain st where
    "forEach alloc_step rs ?st0 = Inr st"
    "allocationResults st =
       allocationResults ?st0 @ map (\<lambda>(r, v). make_result r v) (matches rs (fleetGroups ?st0))"
    "assignedVanIds st =
       assignedVanIds ?st0 @ map (\<lambda>(r, v). vanId v) (matches rs (fleetGroups ?st0))"
    "map logRoute (logged st) = map logRoute (logged ?st0) @ map routeCode rs"
    "map logRoute (filter isAssigned (logged st)) =
       map logRoute (filter isAssigned (logged ?st0)) @ map routeCode (map fst (matches rs (fleetGroups ?st0)))"
    by blast
  then show ?thesis by (simp add: alloc_run_def init)
qed

lemma alloc_run_Inr:
  assumes "alloc_run rs f = Inr st"
  shows "allocationResults st =
          map (\<lambda>(r, v). make_result r v) (matches rs (groupsOf (operationalFleet f) vanType))"
    and "assignedVanIds st =
          map (\<lambda>(r, v). vanId v) (matches rs (groupsOf (operationalFleet f) vanType))"
    and "map logRoute (logged st) = map routeCode rs"
    and "map logRoute (filter isAssigned (logged st)) =
          map routeCode (map fst (matches rs (groupsOf (operationalFleet f) vanType)))"
    and "\<not> ((\<exists>v \<in> set f. opnal v = ''Y'' \<and> namesMember (vanType v))
         \<or> (\<exists>r \<in> set rs. truthy (serviceType r) \<and> \<not> isText (serviceType r)))"
proof -
  show n: "\<not> ((\<exists>v \<in> set f. opnal v = ''Y'' \<and> namesMember (vanType v))
         \<or> (\<exists>r \<in> set rs. truthy (serviceType r) \<and> \<not> isText (serviceType r)))"
  proof
    assume "(\<exists>v \<in> set f. opnal v = ''Y'' \<and> namesMember (vanType v))
         \<or> (\<exists>r \<in> set rs. truthy (serviceType r) \<and> \<not> isText (serviceType r))"
    then have "alloc_run rs f = Inl TypeError" by (rule alloc_run_raises)
    with assms show False by simp
  qed
  from alloc_run_returns [OF n] assms
  show "allocationResults st =
          map (\<lambda>(r, v). make_result r v) (matches rs (groupsOf (operationalFleet f) vanType))"
    and "assignedVanIds st =
          map (\<lambda>(r, v). vanId v) (matches rs (groupsOf (operationalFleet f) vanType))"
    and "map logRoute (logged st) = map routeCode rs"
    and "map logRoute (filter isAssigned (logged st)) =
          map routeCode (map fst (matches rs (groupsOf (operationalFleet f) vanType)))"
    by auto
qed

lemma allocate_alloc_run:
  "allocateVehiclesToRoutes rs f =
     (case alloc_run rs f of
        Inl e \<Rightarrow> Inl e
      | Inr st \<Rightarrow> Inr \<lparr> outAllocationResults = allocationResults st, outAssignedVanIds = assignedVanIds st \<rparr>)"
  by (simp add: allocateVehiclesToRoutes_def)

lemma allocate_Inr:
  assumes "allocateVehiclesToRoutes rs f = Inr out"
  shows "outAllocationResults out =
          map (\<lambda>(r, v). make_result r v) (matches rs (groupsOf (operationalFleet f) vanType))"
    and "outAssignedVanIds out =
          map (\<lambda>(r, v). vanId v) (matches rs (groupsOf (operationalFleet f) vanType))"
proof -
  from assms obtain st where st: "alloc_run rs f = Inr st"
    and out: "out = \<lparr> outAllocationResults = allocationResults st, outAssignedVanIds = assignedVanIds st \<rparr>"
    by (auto simp: allocate_alloc_run split: sum.splits)
  show "outAllocationResults out =
          map (\<lambda>(r, v). make_result r v) (matches rs (groupsOf (operationalFleet f) vanType))"
    by (simp add: out alloc_run_Inr(1) [OF st])
  show "outAssignedVanIds out =
          map (\<lambda>(r, v). vanId v) (matches rs (groupsOf (operationalFleet f) vanType))"
    by (simp add: out alloc_run_Inr(2) [OF st])
qed






lemma allocate_returns:
  assumes "\<not> ((\<exists>v \<in> set f. opnal v = ''Y'' \<and> namesMember (vanType v))
         \<or> (\<exists>r \<in> set rs. truthy (serviceType r) \<and> \<not> isText (serviceType r)))"
  shows "allocateVehiclesToRoutes rs f =
     Inr \<lparr> outAllocationResults =
             map (\<lambda>(r, v). make_result r v) (matches rs (groupsOf (operationalFleet f) vanType)),
           outAssignedVanIds =
             map (\<lambda>(r, v). vanId v) (matches rs (groupsOf (operationalFleet f) vanType)) \<rparr>"
proof -
  from alloc_run_returns [OF assms] obtain st where
    "alloc_run rs f = Inr st"
    "allocationResults st =
       map (\<lambda>(r, v). make_result r v) (matches rs (groupsOf (operationalFleet f) vanType))"
    "assignedVanIds st =
       map (\<lambda>(r, v). vanId v) (matches rs (groupsOf (operationalFleet f) vanType))"
    by blast
  then show ?thesis by (simp add: allocate_alloc_run)
qed

lemma getVanType_CX11: "getVanType (serviceType routeCX11) = Inr None"
  by (simp add: getVanType_text routeCX11_def VAN_TYPE_MAPPING_def namesMember_def
      objectPrototypeMembers_def sublist_code)

lemma getVanType_CX9: "getVanType (serviceType routeCX9) = Inr (Some (TypeName ''Large''))"
  by (simp add: getVanType_text routeCX9_def VAN_TYPE_MAPPING_def)

lemma getVanType_CX10: "getVanType (serviceType routeCX10) = Inr (Some (TypeName ''Large''))"
  by (simp add: getVanType_text routeCX10_def VAN_TYPE_MAPPING_def)


lemma getVanType_CX13: "getVanType (serviceType routeCX13) = Inr (Some (Member ''constructor''))"
  by (simp add: getVanType_text routeCX13_def VAN_TYPE_MAPPING_def namesMember_def
      objectPrototypeMembers_def)

lemma requiredKey_CX:
  "requiredKey (serviceType routeCX9) = Some ''Large''"
  "requiredKey (serviceType routeCX10) = Some ''Large''"
  "requiredKey (serviceType routeCX11) = None"
  "requiredKey (serviceType routeCX13) = Some ''function Object() { [native code] }''"
  by (simp_all add: requiredKey_def getVanType_CX9 getVanType_CX10 getVanType_CX11 getVanType_CX13
      memberText_def)

lemma plain_CX:
  "\<not> namesMember ''Large''" "\<not> namesMember ''Step Van''"
  "\<not> namesMember ''function Object() { [native code] }''" "namesMember ''constructor''"
  by (simp_all add: namesMember_def objectPrototypeMembers_def)

lemma text_CX:
  "isText (serviceType routeCX9)" "isText (serviceType routeCX10)" "isText (serviceType routeCX11)"
  "isText (serviceType routeCX13)" "\<not> isText (serviceType routeCX12)" "truthy (serviceType routeCX12)"
  by (simp_all add: isText_def routeCX9_def routeCX10_def routeCX11_def routeCX12_def routeCX13_def)

lemma made_CX:
  "make_result routeCX9 vanBW1 = allocationCX9"
  "make_result routeCX10 vanBW2 = allocationCX10"
  "make_result routeCX13 vanBW5 = allocationCX13"
  by (simp_all add: make_result_def routeCX9_def routeCX10_def routeCX13_def vanBW1_def vanBW2_def
      vanBW5_def allocationCX9_def allocationCX10_def allocationCX13_def)


lemma run_three_routes:
  "allocateVehiclesToRoutes [routeCX9, routeCX11, routeCX10] [vanBW1, vanBW3, vanBW2] =
     Inr \<lparr> outAllocationResults = [allocationCX9, allocationCX10],
           outAssignedVanIds = [''BW1'', ''BW2''] \<rparr>"
proof -
  have ok: "\<not> ((\<exists>v \<in> set [vanBW1, vanBW3, vanBW2]. opnal v = ''Y'' \<and> namesMember (vanType v))
         \<or> (\<exists>r \<in> set [routeCX9, routeCX11, routeCX10]. truthy (serviceType r) \<and> \<not> isText (serviceType r)))"
    using plain_CX text_CX by (simp add: vanBW1_def vanBW2_def vanBW3_def)
  have m: "matches [routeCX9, routeCX11, routeCX10] (groupsOf (operationalFleet [vanBW1, vanBW3, vanBW2]) vanType)
      = [(routeCX9, vanBW1), (routeCX10, vanBW2)]"
    by (simp add: requiredKey_CX groupsOf_queue queueOf_upd operationalFleet_def
        vanBW1_def vanBW2_def vanBW3_def)
  have ids: "vanId vanBW1 = ''BW1''" "vanId vanBW2 = ''BW2''" by (simp_all add: vanBW1_def vanBW2_def)
  show ?thesis
    by (simp only: allocate_returns [OF ok] m) (simp add: made_CX ids)
qed



subsection \<open>No vehicle and no route twice\<close>

lemma distinct_count_list: "distinct zs = (\<forall>a. count_list zs a \<le> 1)"
proof (induction zs)
  case Nil
  show ?case by simp
next
  case (Cons z zs)
  show ?case
  proof
    assume d: "distinct (z # zs)"
    then have "count_list zs z = 0" by (simp add: count_list_0_iff)
    moreover from d Cons.IH have "\<forall>a. count_list zs a \<le> 1" by simp
    ultimately show "\<forall>a. count_list (z # zs) a \<le> 1" by simp
  next
    assume c: "\<forall>a. count_list (z # zs) a \<le> 1"
    then have "count_list (z # zs) z \<le> 1" by blast
    then have "z \<notin> set zs" by (simp add: count_list_0_iff)
    moreover have "\<forall>a. count_list zs a \<le> 1"
    proof
      fix a
      from c have "count_list (z # zs) a \<le> 1" by blast
      then show "count_list zs a \<le> 1" by (simp split: if_splits)
    qed
    ultimately show "distinct (z # zs)" using Cons.IH by simp
  qed
qed

lemma distinct_map_count:
  assumes le: "\<And>x. count_list xs x \<le> count_list ys x" and d: "distinct (map f ys)"
  shows "distinct (map f xs)"
proof -
  have "mset xs \<subseteq># mset ys"
    by (rule mset_subset_eqI) (simp add: count_mset le)
  then have "image_mset f (mset xs) \<subseteq># image_mset f (mset ys)"
    by (rule image_mset_subseteq_mono)
  then have sub: "mset (map f xs) \<subseteq># mset (map f ys)" by simp
  have "\<forall>a. count_list (map f xs) a \<le> 1"
  proof
    fix a
    have "count (mset (map f xs)) a \<le> count (mset (map f ys)) a"
      using sub by (rule mset_subset_eq_count)
    then have "count_list (map f xs) a \<le> count_list (map f ys) a" by (simp only: count_mset)
    also have "\<dots> \<le> 1" using d by (simp add: distinct_count_list)
    finally show "count_list (map f xs) a \<le> 1" .
  qed
  then show ?thesis by (simp add: distinct_count_list)
qed

lemma count_list_filter_le: "count_list (filter P xs) x \<le> count_list xs x"
  by (induction xs) auto

lemma assigned_vehicles_distinct:
  assumes "distinct (map vanId (operationalFleet f))"
  shows "distinct (map vanId (map snd (matches rs (groupsOf (operationalFleet f) vanType))))"
proof (rule distinct_map_count [OF _ assms])
  fix x
  have "count_list (map snd (matches rs (groupsOf (operationalFleet f) vanType))) x
          \<le> count_list (queueOf (groupsOf (operationalFleet f) vanType) (vanType x)) x"
    by (rule matches_count [OF wellGrouped_groupsOf])
  also have "\<dots> \<le> count_list (operationalFleet f) x"
    by (simp add: groupsOf_queue count_list_filter_le)
  finally show "count_list (map snd (matches rs (groupsOf (operationalFleet f) vanType))) x
          \<le> count_list (operationalFleet f) x" .
qed

lemma subseq_distinct: "subseq xs ys \<Longrightarrow> distinct ys \<Longrightarrow> distinct xs"
proof (induction rule: list_emb.induct)
  case (list_emb_Nil ys)
  show ?case by simp
next
  case (list_emb_Cons xs ys y)
  then show ?case by simp
next
  case (list_emb_Cons2 x y xs ys)
  have "set xs \<subseteq> set ys"
    using list_emb_Cons2.hyps(2) by (auto elim: list_emb_set)
  with list_emb_Cons2.prems have "x \<notin> set xs"
    using list_emb_Cons2.hyps(1) by auto
  with list_emb_Cons2 show ?case by simp
qed

text \<open>
  C4 (as amended). For a run that returns: when the operational vehicles of the roster have
  pairwise distinct van ids, no van id occurs twice in the allocations or in the assigned
  ids; when the input routes have pairwise distinct route codes, no route code occurs
  twice in the allocations. A run that raises an exception produces no allocation.
\<close>

theorem C4_no_double_booking:
  assumes "allocateVehiclesToRoutes rs f = Inr out"
  shows "(distinct (map vanId (operationalFleet f)) \<longrightarrow>
      distinct (map resVanId (outAllocationResults out)) \<and> distinct (outAssignedVanIds out))
   \<and> (distinct (map routeCode rs) \<longrightarrow> distinct (map resRouteCode (outAllocationResults out)))"
proof (intro conjI impI)
  let ?m = "matches rs (groupsOf (operationalFleet f) vanType)"
  note r = allocate_Inr [OF assms]
  have ids: "map resVanId (map (\<lambda>(r, v). make_result r v) ?m) = map vanId (map snd ?m)"
    by (simp add: make_result_def split_def)
  have ids2: "map (\<lambda>(r, v). vanId v) ?m = map vanId (map snd ?m)"
    by (simp add: split_def)
  have codes: "map resRouteCode (map (\<lambda>(r, v). make_result r v) ?m) = map routeCode (map fst ?m)"
    by (simp add: make_result_def split_def)
  {
    assume d: "distinct (map vanId (operationalFleet f))"
    have dv: "distinct (map vanId (map snd ?m))"
      using d by (rule assigned_vehicles_distinct)
    show "distinct (map resVanId (outAllocationResults out))"
      using dv by (simp only: r ids)
    show "distinct (outAssignedVanIds out)"
      using dv by (simp only: r ids2)
  }
  {
    assume d: "distinct (map routeCode rs)"
    have "subseq (map routeCode (map fst ?m)) (map routeCode rs)"
      by (rule subseq_map) (rule matches_subseq)
    then have "distinct (map routeCode (map fst ?m))"
      using d by (rule subseq_distinct)
    then show "distinct (map resRouteCode (outAllocationResults out))"
      by (simp only: r codes)
  }
qed

theorem C4_no_double_booking_witness:
  "allocateVehiclesToRoutes [routeCX9, routeCX11, routeCX10] [vanBW1, vanBW3, vanBW2] =
     Inr \<lparr> outAllocationResults = [allocationCX9, allocationCX10],
           outAssignedVanIds = [''BW1'', ''BW2''] \<rparr>
   \<and> distinct (map vanId (operationalFleet [vanBW1, vanBW3, vanBW2]))
   \<and> distinct (map routeCode [routeCX9, routeCX11, routeCX10])
   \<and> distinct (map resVanId [allocationCX9, allocationCX10])
   \<and> distinct [''BW1'', ''BW2'']
   \<and> distinct (map resRouteCode [allocationCX9, allocationCX10])"
proof -
  have h1: "distinct (map vanId (operationalFleet [vanBW1, vanBW3, vanBW2]))"
    by (simp add: operationalFleet_def vanBW1_def vanBW2_def vanBW3_def)
  have h2: "distinct (map routeCode [routeCX9, routeCX11, routeCX10])"
    by (simp add: routeCX9_def routeCX10_def routeCX11_def)
  from C4_no_double_booking [OF run_three_routes] h1 h2
  have "distinct (map resVanId [allocationCX9, allocationCX10])"
    and "distinct [''BW1'', ''BW2'']"
    and "distinct (map resRouteCode [allocationCX9, allocationCX10])"
    by simp_all
  with run_three_routes h1 h2 show ?thesis by (intro conjI)
qed

text \<open>
  The claim as written fails: a roster that lists van \<open>BW1\<close> twice has it assigned to two
  routes, and a route list that names \<open>CX9\<close> twice has that code in two allocations.
\<close>

theorem C4_counterexample:
  "(\<exists>out. allocateVehiclesToRoutes [routeCX9, routeCX10] [vanBW1, vanBW1] = Inr out
          \<and> map resVanId (outAllocationResults out) = [''BW1'', ''BW1'']
          \<and> outAssignedVanIds out = [''BW1'', ''BW1''])
   \<and> (\<exists>out. allocateVehiclesToRoutes [routeCX9, routeCX9] [vanBW1, vanBW2] = Inr out
          \<and> map resRouteCode (outAllocationResults out) = [''CX9'', ''CX9''])"
proof -
  have ok1: "\<not> ((\<exists>v \<in> set [vanBW1, vanBW1]. opnal v = ''Y'' \<and> namesMember (vanType v))
         \<or> (\<exists>r \<in> set [routeCX9, routeCX10]. truthy (serviceType r) \<and> \<not> isText (serviceType r)))"
    using plain_CX text_CX by (simp add: vanBW1_def)
  have m1: "matches [routeCX9, routeCX10] (groupsOf (operationalFleet [vanBW1, vanBW1]) vanType)
      = [(routeCX9, vanBW1), (routeCX10, vanBW1)]"
    by (simp add: requiredKey_CX groupsOf_queue queueOf_upd operationalFleet_def vanBW1_def)
  have ok2: "\<not> ((\<exists>v \<in> set [vanBW1, vanBW2]. opnal v = ''Y'' \<and> namesMember (vanType v))
         \<or> (\<exists>r \<in> set [routeCX9, routeCX9]. truthy (serviceType r) \<and> \<not> isText (serviceType r)))"
    using plain_CX text_CX by (simp add: vanBW1_def vanBW2_def)
  have m2: "matches [routeCX9, routeCX9] (groupsOf (operationalFleet [vanBW1, vanBW2]) vanType)
      = [(routeCX9, vanBW1), (routeCX9, vanBW2)]"
    by (simp add: requiredKey_CX groupsOf_queue queueOf_upd operationalFleet_def vanBW1_def vanBW2_def)
  have f: "vanId vanBW1 = ''BW1''" "routeCode routeCX9 = ''CX9''"
    by (simp_all add: vanBW1_def routeCX9_def)
  have a: "\<exists>out. allocateVehiclesToRoutes [routeCX9, routeCX10] [vanBW1, vanBW1] = Inr out
          \<and> map resVanId (outAllocationResults out) = [''BW1'', ''BW1'']
          \<and> outAssignedVanIds out = [''BW1'', ''BW1'']"
    by (simp only: allocate_returns [OF ok1] m1) (simp add: make_result_def f)
  have b: "\<exists>out. allocateVehiclesToRoutes [routeCX9, routeCX9] [vanBW1, vanBW2] = Inr out
          \<and> map resRouteCode (outAllocationResults out) = [''CX9'', ''CX9'']"
    by (simp only: allocate_returns [OF ok2] m2) (simp add: make_result_def f)
  from a b show ?thesis by (intro conjI)
qed

subsection \<open>What the matcher reports\<close>







subsection \<open>Fleet partitioning\<close>





subsection \<open>The last populated row\<close>

lemma lpf_append:
  "lastPopulatedFrom i (xs @ ys) acc = lastPopulatedFrom (i + length xs) ys (lastPopulatedFrom i xs acc)"
  by (induction xs arbitrary: i acc) simp_all

lemma lpf_unpopulated:
  "\<forall>r \<in> set ys. \<not> rowPopulated r \<Longrightarrow> lastPopulatedFrom i ys acc = acc"
  by (induction ys arbitrary: i) simp_all

lemma lpf_upper: "acc \<le> i \<Longrightarrow> lastPopulatedFrom i xs acc \<le> i + length xs"
proof (induction xs arbitrary: i acc)
  case Nil
  then show ?case by simp
next
  case (Cons x xs)
  have "lastPopulatedFrom (Suc i) xs (if rowPopulated x then i + 1 else acc) \<le> Suc i + length xs"
    by (rule Cons.IH) (use Cons.prems in simp)
  then show ?case by simp
qed

lemma lpf_lower: "acc \<le> i \<Longrightarrow> acc \<le> lastPopulatedFrom i xs acc"
proof (induction xs arbitrary: i acc)
  case Nil
  then show ?case by simp
next
  case (Cons x xs)
  have "(if rowPopulated x then i + 1 else acc) \<le> lastPopulatedFrom (Suc i) xs (if rowPopulated x then i + 1 else acc)"
    by (rule Cons.IH) (use Cons.prems in simp)
  with Cons.prems show ?case by (simp split: if_splits)
qed

lemma lpf_populated:
  "j < length xs \<Longrightarrow> rowPopulated (xs ! j) \<Longrightarrow> acc \<le> i \<Longrightarrow> i + j < lastPopulatedFrom i xs acc"
proof (induction xs arbitrary: i acc j)
  case Nil
  then show ?case by simp
next
  case (Cons x xs)
  show ?case
  proof (cases j)
    case 0
    with Cons.prems have "rowPopulated x" by simp
    moreover have "i + 1 \<le> lastPopulatedFrom (Suc i) xs (i + 1)"
      by (rule lpf_lower) simp
    ultimately show ?thesis using 0 by simp
  next
    case (Suc k)
    with Cons.prems have "k < length xs" "rowPopulated (xs ! k)" by simp_all
    then have "Suc i + k < lastPopulatedFrom (Suc i) xs (if rowPopulated x then i + 1 else acc)"
      by (rule Cons.IH) (use Cons.prems in simp)
    with Suc show ?thesis by simp
  qed
qed

lemma lpf_all_populated:
  "ys \<noteq> [] \<Longrightarrow> \<forall>r \<in> set ys. rowPopulated r \<Longrightarrow> lastPopulatedFrom i ys acc = i + length ys"
proof (induction ys arbitrary: i acc)
  case Nil
  then show ?case by simp
next
  case (Cons y ys)
  show ?case
  proof (cases "ys = []")
    case True
    with Cons.prems show ?thesis by simp
  next
    case False
    then have "lastPopulatedFrom (Suc i) ys (i + 1) = Suc i + length ys"
      by (rule Cons.IH) (use Cons.prems in simp)
    with Cons.prems show ?thesis by simp
  qed
qed

lemma last_le_length: "getLastPopulatedRowInColumns sh \<le> length sh"
  using lpf_upper [of 0 0 sh] by (simp add: getLastPopulatedRowInColumns_def)

lemma populated_below_last:
  "j < length sh \<Longrightarrow> rowPopulated (sh ! j) \<Longrightarrow> j < getLastPopulatedRowInColumns sh"
  using lpf_populated [of j sh 0 0] by (simp add: getLastPopulatedRowInColumns_def)

lemma unpopulated_from_last:
  "r \<in> set (drop (getLastPopulatedRowInColumns sh) sh) \<Longrightarrow> \<not> rowPopulated r"
proof
  assume r: "r \<in> set (drop (getLastPopulatedRowInColumns sh) sh)" and p: "rowPopulated r"
  from r obtain k where k: "k < length (drop (getLastPopulatedRowInColumns sh) sh)"
      and rk: "drop (getLastPopulatedRowInColumns sh) sh ! k = r"
    by (auto simp: in_set_conv_nth)
  let ?j = "getLastPopulatedRowInColumns sh + k"
  from k have j: "?j < length sh" by simp
  moreover from rk j have "sh ! ?j = r" by simp
  ultimately have "?j < getLastPopulatedRowInColumns sh"
    using p populated_below_last by blast
  then show False by simp
qed

lemma last_of_append:
  assumes "length xs = n" and "new \<noteq> []" and "\<forall>r \<in> set new. rowPopulated r"
    and "\<forall>r \<in> set rest. \<not> rowPopulated r"
  shows "getLastPopulatedRowInColumns (xs @ new @ rest) = n + length new"
proof -
  have "getLastPopulatedRowInColumns (xs @ new @ rest) =
        lastPopulatedFrom (n + length new) rest (lastPopulatedFrom n new (lastPopulatedFrom 0 xs 0))"
    using assms(1) by (simp add: getLastPopulatedRowInColumns_def lpf_append)
  also have "\<dots> = lastPopulatedFrom n new (lastPopulatedFrom 0 xs 0)"
    using assms(4) by (rule lpf_unpopulated)
  also have "\<dots> = n + length new"
    using assms(2,3) by (rule lpf_all_populated)
  finally show ?thesis .
qed

subsection \<open>Writing a range\<close>

lemma rowAt_nth: "i < length sh \<Longrightarrow> rowAt sh i = sh ! i"
  by (simp add: rowAt_def)

lemma slice_padTo:
  "take n (drop L (padTo (L + n) sh)) = map (rowAt sh) [L..<L + n]"
proof (rule nth_equalityI)
  show "length (take n (drop L (padTo (L + n) sh))) = length (map (rowAt sh) [L..<L + n])"
    by (simp add: padTo_def)
next
  fix k assume "k < length (take n (drop L (padTo (L + n) sh)))"
  then have k: "k < n" by simp
  have len: "L + n \<le> length (padTo (L + n) sh)"
    by (simp add: padTo_def)
  have "take n (drop L (padTo (L + n) sh)) ! k = padTo (L + n) sh ! (L + k)"
    using k len by simp
  also have "\<dots> = rowAt sh (L + k)"
    using k by (simp add: padTo_def rowAt_def nth_append)
  finally show "take n (drop L (padTo (L + n) sh)) ! k = map (rowAt sh) [L..<L + n] ! k"
    using k by simp
qed

lemma setValues_eq:
  assumes "L \<le> length sh"
  shows "setValues put L vals sh =
     take L sh @ map (\<lambda>(v, r). put v r) (zip vals (map (rowAt sh) [L..<L + length vals]))
       @ drop (L + length vals) sh"
proof -
  have "take L (padTo (L + length vals) sh) = take L sh"
    using assms by (simp add: padTo_def)
  moreover have "drop (L + length vals) (padTo (L + length vals) sh) = drop (L + length vals) sh"
    by (simp add: padTo_def)
  ultimately show ?thesis
    by (simp add: setValues_def Let_def slice_padTo)
qed

lemma setValues_nth_new:
  assumes "L \<le> length sh" and "k < length vals"
  shows "setValues put L vals sh ! (L + k) = put (vals ! k) (rowAt sh (L + k))"
proof -
  have "length (take L sh) = L" using assms(1) by simp
  then have "setValues put L vals sh ! (L + k) =
      (map (\<lambda>(v, r). put v r) (zip vals (map (rowAt sh) [L..<L + length vals]))
        @ drop (L + length vals) sh) ! k"
    by (simp add: setValues_eq [OF assms(1)] nth_append)
  also have "\<dots> = put (vals ! k) (rowAt sh (L + k))"
    using assms(2) by (simp add: nth_append)
  finally show ?thesis .
qed

subsection \<open>Dates, keys and the identifiers already in the log\<close>

lemma formatDate_length: "length (formatDate d) = 10"
  by (simp add: formatDate_def)

lemma today_populated: "cellPopulated (Txt (getTodayString now))"
  by (simp add: getTodayString_def formatDate_def trimsToEmpty_def isWhitespace_def)

lemma showInt_0: "showInt 0 = [digit 0]"
  by (simp add: showInt_def)

lemma dated_today_populated:
  assumes "existingDate c = getTodayString now"
  shows "cellPopulated c"
proof (cases c)
  case (Txt s)
  with assms show ?thesis using today_populated [of now] by simp
next
  case (Num n)
  show ?thesis
  proof (cases "n = 0")
    case True
    with Num assms have "getTodayString now = [digit 0]"
      by (simp only: existingDate.simps showInt_0)
    then have "length (getTodayString now) = 1" by simp
    moreover have "length (getTodayString now) = 10"
      by (simp add: getTodayString_def formatDate_length)
    ultimately show ?thesis by simp
  next
    case False
    with Num show ?thesis by simp
  qed
next
  case (DateObj d)
  then show ?thesis by simp
qed

lemma fold_setAdd_set:
  "set (fold (\<lambda>x ids. if P x then setAdd (g x) ids else ids) xs init) =
     set init \<union> g ` {x \<in> set xs. P x}"
  by (induction xs arbitrary: init) (auto simp: setAdd_def)

lemma fold_setAdd_distinct:
  "distinct init \<Longrightarrow> distinct (fold (\<lambda>x ids. if P x then setAdd (g x) ids else ids) xs init)"
  by (induction xs arbitrary: init) (auto simp: setAdd_def)

lemma dataRows_eq:
  "dataRows sh (getLastPopulatedRowInColumns sh) = drop 1 (take (getLastPopulatedRowInColumns sh) sh)"
proof (rule nth_equalityI)
  show "length (dataRows sh (getLastPopulatedRowInColumns sh)) =
        length (drop 1 (take (getLastPopulatedRowInColumns sh) sh))"
    using last_le_length [of sh] by (simp add: dataRows_def)
next
  fix i assume "i < length (dataRows sh (getLastPopulatedRowInColumns sh))"
  then have i: "Suc i < getLastPopulatedRowInColumns sh" by (simp add: dataRows_def)
  then have l: "Suc i < length sh" using last_le_length [of sh] by simp
  then have "rowAt sh (Suc i) = sh ! Suc i" by (rule rowAt_nth)
  moreover have "drop 1 (take (getLastPopulatedRowInColumns sh) sh) ! i = sh ! Suc i"
    using i l by simp
  ultimately show "dataRows sh (getLastPopulatedRowInColumns sh) ! i =
        drop 1 (take (getLastPopulatedRowInColumns sh) sh) ! i"
    using i by (simp add: dataRows_def)
qed

lemma existing_set:
  "set (getExistingUniqueIdentifiers sh d) =
     colV ` {r \<in> set (drop 1 (take (getLastPopulatedRowInColumns sh) sh)). existingDate (colA r) = d}"
proof (cases "getLastPopulatedRowInColumns sh > 1")
  case True
  then show ?thesis
    by (simp add: getExistingUniqueIdentifiers_def Let_def fold_setAdd_set dataRows_eq)
next
  case False
  then have "drop 1 (take (getLastPopulatedRowInColumns sh) sh) = []" by simp
  with False show ?thesis
    by (simp add: getExistingUniqueIdentifiers_def Let_def)
qed

text \<open>The rows of today below the header are all within the populated part of the sheet.\<close>

lemma today_rows:
  "{r \<in> set (drop 1 (take (getLastPopulatedRowInColumns sh) sh)). existingDate (colA r) = getTodayString now}
   = {r \<in> set (drop 1 sh). existingDate (colA r) = getTodayString now}"
proof (intro equalityI subsetI)
  fix r
  assume "r \<in> {r \<in> set (drop 1 (take (getLastPopulatedRowInColumns sh) sh)). existingDate (colA r) = getTodayString now}"
  then have "r \<in> set (drop 1 (take (getLastPopulatedRowInColumns sh) sh))"
    and d: "existingDate (colA r) = getTodayString now" by simp_all
  then have "r \<in> set (take (getLastPopulatedRowInColumns sh - 1) (drop 1 sh))"
    by (simp add: drop_take)
  then have "r \<in> set (drop 1 sh)" by (rule in_set_takeD)
  with d show "r \<in> {r \<in> set (drop 1 sh). existingDate (colA r) = getTodayString now}" by simp
next
  fix r
  assume "r \<in> {r \<in> set (drop 1 sh). existingDate (colA r) = getTodayString now}"
  then have m: "r \<in> set (drop 1 sh)" and d: "existingDate (colA r) = getTodayString now" by simp_all
  from m obtain k where k: "k < length (drop 1 sh)" and rk: "drop 1 sh ! k = r"
    by (auto simp: in_set_conv_nth)
  from k have j: "Suc k < length sh" by simp
  with rk have sj: "sh ! Suc k = r" by simp
  have "rowPopulated r"
    using dated_today_populated [OF d] by (simp add: rowPopulated_def)
  with j sj have lt: "Suc k < getLastPopulatedRowInColumns sh"
    using populated_below_last by blast
  let ?xs = "drop 1 (take (getLastPopulatedRowInColumns sh) sh)"
  have "k < length ?xs" using lt j by simp
  moreover have "?xs ! k = r" using lt j sj by simp
  ultimately have "r \<in> set ?xs" by (auto simp: in_set_conv_nth)
  with d show "r \<in> {r \<in> set (drop 1 (take (getLastPopulatedRowInColumns sh) sh)). existingDate (colA r) = getTodayString now}"
    by simp
qed

lemma existing_today:
  "set (getExistingUniqueIdentifiers sh (getTodayString now)) =
     colV ` {r \<in> set (drop 1 sh). existingDate (colA r) = getTodayString now}"
  by (simp only: existing_set today_rows)

lemma collect_set:
  "set (collectIdentifiers rows) = {k. k \<noteq> [] \<and> k \<in> resCol10 ` set rows}"
  by (auto simp: collectIdentifiers_def fold_setAdd_set)

lemma update_unfold:
  assumes "\<not> length resultsData < 2"
  shows "updateDailyDetails now (Some sh) (Some resultsData) =
     (let today = getTodayString now;
          rows = tl resultsData;
          keys = collectIdentifiers rows;
          dups = filter (\<lambda>uid. uid \<in> set (getExistingUniqueIdentifiers sh today)) keys;
          L = getLastPopulatedRowInColumns sh;
          sh1 = setValues putAE L (map (newRowOf today) rows) sh
      in if dups \<noteq> [] then Inr (DuplicatesDetected dups, sh)
         else if length keys = length rows then Inr (Appended True, setValues putV L keys sh1)
         else Inr (Appended False, sh1))"
  using assms by (simp add: updateDailyDetails_def Let_def)

text \<open>
  C2 (as amended). When an identity key of a candidate row (a non-empty cell of column 10 of
  a data row of the Results sheet) is the key of a row of Daily Details from row 2 on whose
  date is today, the run ends in the duplicate branch: the sheet it leaves is the sheet it
  found, and the keys reported are exactly the candidate keys that occur in such a row.
  Row 1 is taken as the header and is not scanned.
\<close>

theorem C2_atomic_on_duplicate:
  assumes "r \<in> set (tl resultsData)" and "resCol10 r \<noteq> []"
    and "row \<in> set (drop 1 sh)" and "existingDate (colA row) = getTodayString now"
    and "colV row = resCol10 r"
  shows "\<exists>dups. updateDailyDetails now (Some sh) (Some resultsData) = Inr (DuplicatesDetected dups, sh)
     \<and> set dups = {k. k \<noteq> [] \<and> k \<in> resCol10 ` set (tl resultsData)
                     \<and> k \<in> colV ` {x \<in> set (drop 1 sh). existingDate (colA x) = getTodayString now}}"
proof -
  let ?today = "getTodayString now"
  let ?keys = "collectIdentifiers (tl resultsData)"
  let ?dups = "filter (\<lambda>uid. uid \<in> set (getExistingUniqueIdentifiers sh ?today)) ?keys"
  from assms(1) have len: "\<not> length resultsData < 2"
    by (cases resultsData) auto
  have "resCol10 r \<in> set ?keys"
    using assms(1,2) by (auto simp: collect_set)
  moreover have "resCol10 r \<in> set (getExistingUniqueIdentifiers sh ?today)"
    using assms(3,4,5) by (force simp: existing_today)
  ultimately have mem: "resCol10 r \<in> set ?dups" by simp
  have ne: "?dups \<noteq> []"
    using mem by (metis empty_iff list.set(1))
  have res: "updateDailyDetails now (Some sh) (Some resultsData) = Inr (DuplicatesDetected ?dups, sh)"
    using ne by (simp add: update_unfold [OF len] Let_def)
  have "set ?dups = {k. k \<noteq> [] \<and> k \<in> resCol10 ` set (tl resultsData)
                     \<and> k \<in> colV ` {x \<in> set (drop 1 sh). existingDate (colA x) = ?today}}"
    by (auto simp: collect_set existing_today)
  with res show ?thesis by blast
qed

lemma today_feb11: "getTodayString feb11 = ''02/11/2025''"
  by (simp add: getTodayString_def formatDate_def feb11_def digit_def)

theorem C2_atomic_on_duplicate_witness:
  "resRowCX9 \<in> set (tl [resHeader, resRowCX9]) \<and> resCol10 resRowCX9 \<noteq> []
   \<and> ddRowCX9 \<in> set (drop 1 [ddHeader, ddRowCX9])
   \<and> existingDate (colA ddRowCX9) = getTodayString feb11
   \<and> colV ddRowCX9 = resCol10 resRowCX9
   \<and> (\<exists>dups. updateDailyDetails feb11 (Some [ddHeader, ddRowCX9]) (Some [resHeader, resRowCX9])
                = Inr (DuplicatesDetected dups, [ddHeader, ddRowCX9])
              \<and> set dups = {''02/11/2025|CX9|Marquis Thomas|BW2''})"
proof -
  have h1: "resRowCX9 \<in> set (tl [resHeader, resRowCX9])" by simp
  have h2: "resCol10 resRowCX9 \<noteq> []" by (simp add: resRowCX9_def)
  have h3: "ddRowCX9 \<in> set (drop 1 [ddHeader, ddRowCX9])" by simp
  have h4: "existingDate (colA ddRowCX9) = getTodayString feb11"
    by (simp add: today_feb11 ddRowCX9_def)
  have h5: "colV ddRowCX9 = resCol10 resRowCX9" by (simp add: ddRowCX9_def resRowCX9_def)
  have "{k. k \<noteq> [] \<and> k \<in> resCol10 ` set (tl [resHeader, resRowCX9])
              \<and> k \<in> colV ` {x \<in> set (drop 1 [ddHeader, ddRowCX9]). existingDate (colA x) = getTodayString feb11}}
           = {resCol10 resRowCX9}"
    using h2 h4 h5 by auto
  also have "resCol10 resRowCX9 = ''02/11/2025|CX9|Marquis Thomas|BW2''"
    by (simp add: resRowCX9_def)
  finally have s: "{k. k \<noteq> [] \<and> k \<in> resCol10 ` set (tl [resHeader, resRowCX9])
              \<and> k \<in> colV ` {x \<in> set (drop 1 [ddHeader, ddRowCX9]). existingDate (colA x) = getTodayString feb11}}
           = {''02/11/2025|CX9|Marquis Thomas|BW2''}" .
  from C2_atomic_on_duplicate [OF h1 h2 h3 h4 h5]
  have "\<exists>dups. updateDailyDetails feb11 (Some [ddHeader, ddRowCX9]) (Some [resHeader, resRowCX9])
                = Inr (DuplicatesDetected dups, [ddHeader, ddRowCX9])
              \<and> set dups = {''02/11/2025|CX9|Marquis Thomas|BW2''}"
    by (simp only: s)
  with h1 h2 h3 h4 h5 show ?thesis by (intro conjI)
qed

lemma first_row_not_scanned: "getExistingUniqueIdentifiers [r] d = []"
proof -
  have "getLastPopulatedRowInColumns [r] \<le> 1"
    using last_le_length [of "[r]"] by simp
  then show ?thesis by (simp add: getExistingUniqueIdentifiers_def Let_def)
qed

lemma last_CX9: "getLastPopulatedRowInColumns [ddRowCX9] = 1"
  by (simp add: getLastPopulatedRowInColumns_def rowPopulated_def ddRowCX9_def
      textPopulated_def trimsToEmpty_def isWhitespace_def)

lemma last_CX9_CX7: "getLastPopulatedRowInColumns [ddRowCX9, ddRowCX7] = 2"
  by (simp add: getLastPopulatedRowInColumns_def rowPopulated_def ddRowCX9_def ddRowCX7_def
      textPopulated_def trimsToEmpty_def isWhitespace_def)

lemma appended_CX9: "putV (resCol10 resRowCX9) (putAE (newRowOf ''02/11/2025'' resRowCX9) blankRow) = ddRowCX9"
  by (simp add: putV_def putAE_def newRowOf_def blankRow_def ddRowCX9_def resRowCX9_def)

lemma collect_CX9: "collectIdentifiers [resRowCX9] = [resCol10 resRowCX9]"
  by (simp add: collectIdentifiers_def setAdd_def resRowCX9_def)

lemma append_below_CX9:
  "updateDailyDetails feb11 (Some [ddRowCX9]) (Some [resHeader, resRowCX9])
     = Inr (Appended True, [ddRowCX9, ddRowCX9])"
proof -
  have sv: "\<And>put a. setValues put (Suc 0) [a] [ddRowCX9] = [ddRowCX9, put a blankRow]"
    by (simp add: setValues_def padTo_def Let_def)
  have sv2: "\<And>put a x. setValues put (Suc 0) [a] [ddRowCX9, x] = [ddRowCX9, put a x]"
    by (simp add: setValues_def padTo_def Let_def)
  have "\<not> length [resHeader, resRowCX9] < 2" by simp
  then show ?thesis
    by (simp add: update_unfold Let_def today_feb11 first_row_not_scanned last_CX9 collect_CX9
        sv sv2 appended_CX9)
qed

lemma existing_CX9_CX7:
  "getExistingUniqueIdentifiers [ddRowCX9, ddRowCX7] ''02/11/2025'' = [''02/11/2025|CX7|N/A|BW3'']"
proof -
  have d: "dataRows [ddRowCX9, ddRowCX7] 2 = [ddRowCX7]"
    by (simp add: dataRows_def rowAt_def numeral_2_eq_2 upt_rec)
  have "getExistingUniqueIdentifiers [ddRowCX9, ddRowCX7] ''02/11/2025'' =
      fold (\<lambda>row ids. if existingDate (colA row) = ''02/11/2025'' then setAdd (colV row) ids else ids)
        [ddRowCX7] []"
    by (simp add: getExistingUniqueIdentifiers_def Let_def last_CX9_CX7 d)
  also have "\<dots> = [''02/11/2025|CX7|N/A|BW3'']"
    by (simp add: setAdd_def ddRowCX7_def)
  finally show ?thesis .
qed

text \<open>
  The claim as written fails for a record in row 1, where the program itself writes when
  the sheet is blank in columns A to E. The record of route \<open>CX9\<close> in row 1 carries today's
  date and the key of the candidate, and the candidate is appended all the same; and of the
  two colliding keys of the second batch only the one found in row 2 is reported.
\<close>

theorem C2_counterexample:
  "existingDate (colA ddRowCX9) = getTodayString feb11
   \<and> colV ddRowCX9 = resCol10 resRowCX9 \<and> resCol10 resRowCX9 \<noteq> []
   \<and> updateDailyDetails feb11 (Some [ddRowCX9]) (Some [resHeader, resRowCX9])
       = Inr (Appended True, [ddRowCX9, ddRowCX9])
   \<and> colV ddRowCX7 = resCol10 resRowCX7
   \<and> updateDailyDetails feb11 (Some [ddRowCX9, ddRowCX7]) (Some [resHeader, resRowCX9, resRowCX7])
       = Inr (DuplicatesDetected [''02/11/2025|CX7|N/A|BW3''], [ddRowCX9, ddRowCX7])"
proof -
  have h4: "existingDate (colA ddRowCX9) = getTodayString feb11"
    by (simp add: today_feb11 ddRowCX9_def)
  have h5: "colV ddRowCX9 = resCol10 resRowCX9" "resCol10 resRowCX9 \<noteq> []"
    "colV ddRowCX7 = resCol10 resRowCX7"
    by (simp_all add: ddRowCX9_def resRowCX9_def ddRowCX7_def resRowCX7_def)
  have keys: "collectIdentifiers [resRowCX9, resRowCX7] =
      [''02/11/2025|CX9|Marquis Thomas|BW2'', ''02/11/2025|CX7|N/A|BW3'']"
    by (simp add: collectIdentifiers_def setAdd_def resRowCX9_def resRowCX7_def)
  have "\<not> length [resHeader, resRowCX9, resRowCX7] < 2" by simp
  then have b: "updateDailyDetails feb11 (Some [ddRowCX9, ddRowCX7]) (Some [resHeader, resRowCX9, resRowCX7])
       = Inr (DuplicatesDetected [''02/11/2025|CX7|N/A|BW3''], [ddRowCX9, ddRowCX7])"
    by (simp add: update_unfold Let_def today_feb11 existing_CX9_CX7 keys)
  from h4 h5 append_below_CX9 b show ?thesis by (intro conjI)
qed

subsection \<open>The collected identifiers\<close>

lemma collect_fold_length_le:
  "length (fold (\<lambda>r ids. if resCol10 r \<noteq> [] then setAdd (resCol10 r) ids else ids) rows init)
     \<le> length init + length rows"
proof (induction rows arbitrary: init)
  case Nil
  show ?case by simp
next
  case (Cons r rows)
  let ?init' = "if resCol10 r \<noteq> [] then setAdd (resCol10 r) init else init"
  have "length (fold (\<lambda>r ids. if resCol10 r \<noteq> [] then setAdd (resCol10 r) ids else ids) rows ?init')
          \<le> length ?init' + length rows"
    by (rule Cons.IH)
  moreover have "length ?init' \<le> length init + 1" by (simp add: setAdd_def)
  ultimately show ?case by simp
qed

lemma collect_fold_full:
  "(length (fold (\<lambda>r ids. if resCol10 r \<noteq> [] then setAdd (resCol10 r) ids else ids) rows init)
      = length init + length rows)
   = ((\<forall>r \<in> set rows. resCol10 r \<noteq> []) \<and> distinct (map resCol10 rows)
       \<and> set init \<inter> resCol10 ` set rows = {})"
proof (induction rows arbitrary: init)
  case Nil
  show ?case by simp
next
  case (Cons r rows)
  let ?f = "\<lambda>r ids. if resCol10 r \<noteq> [] then setAdd (resCol10 r) ids else ids"
  show ?case
  proof (cases "resCol10 r \<noteq> [] \<and> resCol10 r \<notin> set init")
    case True
    then have step: "?f r init = init @ [resCol10 r]" by (simp add: setAdd_def)
    have "(length (fold ?f rows (init @ [resCol10 r])) = length (init @ [resCol10 r]) + length rows)
        = ((\<forall>r \<in> set rows. resCol10 r \<noteq> []) \<and> distinct (map resCol10 rows)
            \<and> set (init @ [resCol10 r]) \<inter> resCol10 ` set rows = {})"
      by (rule Cons.IH)
    with True step show ?thesis by (simp only: fold_Cons o_apply) auto
  next
    case False
    then have step: "?f r init = init" by (auto simp: setAdd_def)
    have "length (fold ?f rows init) \<le> length init + length rows"
      by (rule collect_fold_length_le)
    then have "length (fold ?f (r # rows) init) \<noteq> length init + length (r # rows)"
      using step by (simp only: fold_Cons o_apply) simp
    moreover from False have "\<not> ((\<forall>x \<in> set (r # rows). resCol10 x \<noteq> []) \<and> distinct (map resCol10 (r # rows))
       \<and> set init \<inter> resCol10 ` set (r # rows) = {})"
      by auto
    ultimately show ?thesis by blast
  qed
qed

lemma collect_fold_eq:
  "(\<forall>r \<in> set rows. resCol10 r \<noteq> []) \<Longrightarrow> distinct (map resCol10 rows)
   \<Longrightarrow> set init \<inter> resCol10 ` set rows = {}
   \<Longrightarrow> fold (\<lambda>r ids. if resCol10 r \<noteq> [] then setAdd (resCol10 r) ids else ids) rows init
       = init @ map resCol10 rows"
proof (induction rows arbitrary: init)
  case Nil
  show ?case by simp
next
  case (Cons r rows)
  let ?f = "\<lambda>r ids. if resCol10 r \<noteq> [] then setAdd (resCol10 r) ids else ids"
  from Cons.prems have step: "?f r init = init @ [resCol10 r]" by (auto simp: setAdd_def)
  have "fold ?f rows (init @ [resCol10 r]) = (init @ [resCol10 r]) @ map resCol10 rows"
    by (rule Cons.IH) (use Cons.prems in auto)
  with step show ?case by (simp only: fold_Cons o_apply) simp
qed

text \<open>
  The count test of updateDailyDetails passes exactly when every results row has a key and
  no two rows share one; the collected identifiers are then the keys in row order.
\<close>

lemma collect_full:
  "(length (collectIdentifiers rows) = length rows)
   = ((\<forall>r \<in> set rows. resCol10 r \<noteq> []) \<and> distinct (map resCol10 rows))"
  using collect_fold_full [of rows "[]"] by (simp add: collectIdentifiers_def)

lemma collect_eq:
  assumes "length (collectIdentifiers rows) = length rows"
  shows "collectIdentifiers rows = map resCol10 rows"
proof -
  from assms have "(\<forall>r \<in> set rows. resCol10 r \<noteq> []) \<and> distinct (map resCol10 rows)"
    using collect_full [of rows] by blast
  then have "fold (\<lambda>r ids. if resCol10 r \<noteq> [] then setAdd (resCol10 r) ids else ids) rows []
       = [] @ map resCol10 rows"
    by (intro collect_fold_eq) simp_all
  then show ?thesis by (simp add: collectIdentifiers_def)
qed

subsection \<open>The rows after an append\<close>

lemma putAE_populated: "rowPopulated (putAE (newRowOf (getTodayString now) r) x)"
  using today_populated [of now] by (simp add: rowPopulated_def putAE_def newRowOf_def)

lemma setValues_length:
  "L \<le> length sh \<Longrightarrow> length (setValues put L vals sh) = max (length sh) (L + length vals)"
  by (simp add: setValues_eq)

lemma setValues_nth_old:
  assumes "L \<le> length sh" and "i < length sh" and "i < L \<or> L + length vals \<le> i"
  shows "setValues put L vals sh ! i = sh ! i"
proof (cases "i < L")
  case True
  then show ?thesis using assms(1) by (simp add: setValues_eq nth_append)
next
  case False
  with assms(3) have ge: "L + length vals \<le> i" by simp
  have "length (take L sh) = L" using assms(1) by simp
  then have "setValues put L vals sh ! i = drop (L + length vals) sh ! (i - (L + length vals))"
    using ge by (simp add: setValues_eq [OF assms(1)] nth_append)
  also have "\<dots> = sh ! i" using ge assms(2) by simp
  finally show ?thesis .
qed

lemma rowAt_setValues_new:
  assumes "L \<le> length sh" and "k < length vals"
  shows "rowAt (setValues put L vals sh) (L + k) = put (vals ! k) (rowAt sh (L + k))"
proof -
  have "L + k < length (setValues put L vals sh)"
    using assms by (simp add: setValues_length)
  then show ?thesis
    by (simp add: rowAt_def setValues_nth_new [OF assms])
qed

lemma in_drop1: "(r \<in> set (drop (Suc 0) s)) = (\<exists>j. 0 < j \<and> j < length s \<and> s ! j = r)"
proof
  assume "r \<in> set (drop (Suc 0) s)"
  then obtain k where "k < length (drop (Suc 0) s)" and "drop (Suc 0) s ! k = r"
    by (auto simp: in_set_conv_nth)
  then have "0 < Suc k \<and> Suc k < length s \<and> s ! Suc k = r" by simp
  then show "\<exists>j. 0 < j \<and> j < length s \<and> s ! j = r" by blast
next
  assume "\<exists>j. 0 < j \<and> j < length s \<and> s ! j = r"
  then obtain j where j: "0 < j" "j < length s" "s ! j = r" by blast
  then have "j - 1 < length (drop (Suc 0) s)" and "drop (Suc 0) s ! (j - 1) = r" by simp_all
  then show "r \<in> set (drop (Suc 0) s)" by (auto simp: in_set_conv_nth)
qed

lemma unpopulated_at:
  "getLastPopulatedRowInColumns sh \<le> j \<Longrightarrow> j < length sh \<Longrightarrow> \<not> rowPopulated (sh ! j)"
  using populated_below_last [of j sh] by auto



lemma last_header: "getLastPopulatedRowInColumns [ddHeader] = 1"
  by (simp add: getLastPopulatedRowInColumns_def rowPopulated_def ddHeader_def
      trimsToEmpty_def isWhitespace_def)



subsection \<open>A batch appended with its keys\<close>

text \<open>What a run that ends in \<open>Appended True\<close> has done.\<close>

lemma appended_with_keys:
  fixes sh :: sheet
  defines "L \<equiv> getLastPopulatedRowInColumns sh"
  assumes first: "updateDailyDetails now (Some sh) (Some resultsData) = Inr (Appended True, sh1)"
  shows "\<not> length resultsData < 2"
    and "(\<forall>r \<in> set (tl resultsData). resCol10 r \<noteq> []) \<and> distinct (map resCol10 (tl resultsData))"
    and "length sh1 = max (length sh) (L + length (tl resultsData))"
    and "\<forall>k < length (tl resultsData).
           sh1 ! (L + k) = putV (resCol10 (tl resultsData ! k))
                             (putAE (newRowOf (getTodayString now) (tl resultsData ! k)) (rowAt sh (L + k)))"
    and "\<forall>i < length sh. i < L \<or> L + length (tl resultsData) \<le> i \<longrightarrow> sh1 ! i = sh ! i"
proof -
  let ?today = "getTodayString now"
  let ?rows = "tl resultsData"
  let ?keys = "collectIdentifiers ?rows"
  let ?vals = "map (newRowOf ?today) ?rows"
  let ?sha = "setValues putAE L ?vals sh"
  show len: "\<not> length resultsData < 2"
    using first by (auto simp: updateDailyDetails_def)
  from first have full: "length ?keys = length ?rows"
    and sh1: "sh1 = setValues putV L ?keys ?sha"
    by (auto simp: update_unfold [OF len] Let_def L_def split: if_splits)
  from full show "(\<forall>r \<in> set ?rows. resCol10 r \<noteq> []) \<and> distinct (map resCol10 ?rows)"
    using collect_full [of ?rows] by blast
  have keys: "?keys = map resCol10 ?rows" using full by (rule collect_eq)
  have L: "L \<le> length sh" unfolding L_def by (rule last_le_length)
  have lena: "length ?sha = max (length sh) (L + length ?rows)"
    using setValues_length [OF L, of putAE ?vals] by simp
  then have La: "L \<le> length ?sha" using L by simp
  show "length sh1 = max (length sh) (L + length ?rows)"
    using setValues_length [OF La, of putV ?keys] lena full by (simp add: sh1)
  show "\<forall>k < length ?rows.
           sh1 ! (L + k) = putV (resCol10 (?rows ! k)) (putAE (newRowOf ?today (?rows ! k)) (rowAt sh (L + k)))"
  proof (intro allI impI)
    fix k assume k: "k < length ?rows"
    then have kk: "k < length ?keys" and kv: "k < length ?vals" using full by simp_all
    have "sh1 ! (L + k) = putV (?keys ! k) (rowAt ?sha (L + k))"
      unfolding sh1 by (rule setValues_nth_new [OF La kk])
    also have "rowAt ?sha (L + k) = putAE (?vals ! k) (rowAt sh (L + k))"
      by (rule rowAt_setValues_new [OF L kv])
    finally show "sh1 ! (L + k) = putV (resCol10 (?rows ! k)) (putAE (newRowOf ?today (?rows ! k)) (rowAt sh (L + k)))"
      using k by (simp add: keys)
  qed
  show "\<forall>i < length sh. i < L \<or> L + length ?rows \<le> i \<longrightarrow> sh1 ! i = sh ! i"
  proof (intro allI impI)
    fix i assume i: "i < length sh" and o: "i < L \<or> L + length ?rows \<le> i"
    have ia: "i < length ?sha" using i lena by simp
    have "sh1 ! i = ?sha ! i"
      unfolding sh1 using setValues_nth_old [OF La ia, of ?keys putV] o full by simp
    also have "\<dots> = sh ! i"
      using setValues_nth_old [OF L i, of ?vals putAE] o by simp
    finally show "sh1 ! i = sh ! i" .
  qed
qed

lemma appended_iff:
  "(\<exists>sh1. updateDailyDetails now (Some sh) (Some resultsData) = Inr (Appended True, sh1)) =
     (\<not> length resultsData < 2
      \<and> (\<forall>r \<in> set (tl resultsData). resCol10 r \<noteq> []
            \<and> resCol10 r \<notin> colV ` {x \<in> set (drop 1 sh). existingDate (colA x) = getTodayString now})
      \<and> distinct (map resCol10 (tl resultsData)))"
proof (cases "length resultsData < 2")
  case True
  then show ?thesis by (simp add: updateDailyDetails_def)
next
  case len: False
  let ?today = "getTodayString now"
  let ?rows = "tl resultsData"
  let ?keys = "collectIdentifiers ?rows"
  let ?present = "colV ` {x \<in> set (drop 1 sh). existingDate (colA x) = ?today}"
  let ?dups = "filter (\<lambda>uid. uid \<in> set (getExistingUniqueIdentifiers sh ?today)) ?keys"
  have d: "(?dups = []) = (\<forall>r \<in> set ?rows. resCol10 r \<noteq> [] \<longrightarrow> resCol10 r \<notin> ?present)"
    by (auto simp: filter_empty_conv collect_set existing_today)
  have "(\<exists>sh1. updateDailyDetails now (Some sh) (Some resultsData) = Inr (Appended True, sh1)) =
        (?dups = [] \<and> length ?keys = length ?rows)"
    by (auto simp: update_unfold [OF len] Let_def)
  also have "\<dots> = ((\<forall>r \<in> set ?rows. resCol10 r \<noteq> [] \<longrightarrow> resCol10 r \<notin> ?present)
      \<and> (\<forall>r \<in> set ?rows. resCol10 r \<noteq> []) \<and> distinct (map resCol10 ?rows))"
    by (simp only: d collect_full)
  also have "\<dots> = (\<not> length resultsData < 2
      \<and> (\<forall>r \<in> set ?rows. resCol10 r \<noteq> [] \<and> resCol10 r \<notin> ?present)
      \<and> distinct (map resCol10 ?rows))"
    using len by blast
  finally show ?thesis .
qed

text \<open>
  C1 (as amended). A run appends a batch and writes its keys exactly when the Results
  sheet has a data row, every data row has a key, no key is the key of a row of today from
  row 2 on, and no two data rows share a key. On a sheet that is not blank in columns A to
  E (it has its header row), after such a run a second run on the same day, whatever the
  clock shows then, with results rows that carry the same set of keys ends in the duplicate
  branch: it reports every key of its batch, these are the keys of the first batch, and it
  leaves the sheet as the first run left it.
\<close>

theorem C1_idempotent_append:
  "((\<exists>sh1. updateDailyDetails now (Some sh) (Some resultsData) = Inr (Appended True, sh1)) =
      (\<not> length resultsData < 2
       \<and> (\<forall>r \<in> set (tl resultsData). resCol10 r \<noteq> []
             \<and> resCol10 r \<notin> colV ` {x \<in> set (drop 1 sh). existingDate (colA x) = getTodayString now})
       \<and> distinct (map resCol10 (tl resultsData))))
   \<and> (0 < getLastPopulatedRowInColumns sh
       \<and> updateDailyDetails now (Some sh) (Some resultsData) = Inr (Appended True, sh1)
       \<and> getTodayString now2 = getTodayString now
       \<and> {k \<in> resCol10 ` set (tl resultsData2). k \<noteq> []} = resCol10 ` set (tl resultsData)
      \<longrightarrow> (\<exists>dups. updateDailyDetails now2 (Some sh1) (Some resultsData2)
                     = Inr (DuplicatesDetected dups, sh1)
               \<and> dups = collectIdentifiers (tl resultsData2)
               \<and> set dups = resCol10 ` set (tl resultsData)))"
proof (intro conjI impI)
  show "(\<exists>sh1. updateDailyDetails now (Some sh) (Some resultsData) = Inr (Appended True, sh1)) =
      (\<not> length resultsData < 2
       \<and> (\<forall>r \<in> set (tl resultsData). resCol10 r \<noteq> []
             \<and> resCol10 r \<notin> colV ` {x \<in> set (drop 1 sh). existingDate (colA x) = getTodayString now})
       \<and> distinct (map resCol10 (tl resultsData)))"
    by (rule appended_iff)
next
  assume h: "0 < getLastPopulatedRowInColumns sh
       \<and> updateDailyDetails now (Some sh) (Some resultsData) = Inr (Appended True, sh1)
       \<and> getTodayString now2 = getTodayString now
       \<and> {k \<in> resCol10 ` set (tl resultsData2). k \<noteq> []} = resCol10 ` set (tl resultsData)"
  then have nonblank: "0 < getLastPopulatedRowInColumns sh"
    and first: "updateDailyDetails now (Some sh) (Some resultsData) = Inr (Appended True, sh1)"
    and sameday: "getTodayString now2 = getTodayString now"
    and same: "{k \<in> resCol10 ` set (tl resultsData2). k \<noteq> []} = resCol10 ` set (tl resultsData)"
    by simp_all
  let ?today = "getTodayString now"
  let ?L = "getLastPopulatedRowInColumns sh"
  let ?rows = "tl resultsData"
  let ?rows2 = "tl resultsData2"
  let ?keys2 = "collectIdentifiers ?rows2"
  note a = appended_with_keys [OF first]
  have n: "?rows \<noteq> []" using a(1) by (cases resultsData) auto
  have set2: "set ?keys2 = resCol10 ` set ?rows"
    using same by (auto simp: collect_set)
  have "set ?keys2 \<noteq> {}" using n by (simp add: set2)
  then have ne2: "?keys2 \<noteq> []" by (metis list.set(1))
  have "?rows2 \<noteq> []"
  proof
    assume "?rows2 = []"
    then have "?keys2 = []" by (simp add: collectIdentifiers_def)
    with ne2 show False by simp
  qed
  then have l2: "\<not> length resultsData2 < 2" by (cases resultsData2) auto
  have present: "\<forall>key \<in> resCol10 ` set ?rows. key \<in> set (getExistingUniqueIdentifiers sh1 ?today)"
  proof
    fix key assume "key \<in> resCol10 ` set ?rows"
    then obtain k where k: "k < length ?rows" and key: "key = resCol10 (?rows ! k)"
      by (auto simp: in_set_conv_nth)
    let ?row = "sh1 ! (?L + k)"
    from a(4) k have row: "?row = putV (resCol10 (?rows ! k))
        (putAE (newRowOf ?today (?rows ! k)) (rowAt sh (?L + k)))" by blast
    have "0 < ?L + k" using nonblank by simp
    moreover have "?L + k < length sh1" using a(3) k by simp
    ultimately have "?row \<in> set (drop 1 sh1)" by (auto simp: in_drop1)
    moreover have "existingDate (colA ?row) = ?today"
      by (simp add: row putV_def putAE_def newRowOf_def)
    moreover have "colV ?row = key" by (simp add: row putV_def key)
    ultimately show "key \<in> set (getExistingUniqueIdentifiers sh1 ?today)"
      by (force simp: existing_today)
  qed
  then have dups: "filter (\<lambda>uid. uid \<in> set (getExistingUniqueIdentifiers sh1 ?today)) ?keys2 = ?keys2"
    by (simp add: filter_id_conv set2)
  have "updateDailyDetails now2 (Some sh1) (Some resultsData2) = Inr (DuplicatesDetected ?keys2, sh1)"
    using ne2 by (simp add: update_unfold [OF l2] Let_def sameday dups)
  with set2 show "\<exists>dups. updateDailyDetails now2 (Some sh1) (Some resultsData2)
                     = Inr (DuplicatesDetected dups, sh1)
               \<and> dups = collectIdentifiers (tl resultsData2)
               \<and> set dups = resCol10 ` set (tl resultsData)"
    by blast
qed

lemma existing_header: "getExistingUniqueIdentifiers [ddHeader] d = []"
  by (simp add: getExistingUniqueIdentifiers_def last_header)

lemma setValues_after_header:
  "setValues put (Suc 0) [a, b] [ddHeader] = [ddHeader, put a blankRow, put b blankRow]"
  by (simp add: setValues_def padTo_def Let_def numeral_2_eq_2)

lemma setValues_over_rows:
  "setValues put (Suc 0) [a, b] [h, x, y] = [h, put a x, put b y]"
  by (simp add: setValues_def padTo_def Let_def numeral_2_eq_2)

lemma first_run_two_rows:
  "updateDailyDetails feb11 (Some [ddHeader]) (Some [resHeader, resRowCX9, resRowCX7])
     = Inr (Appended True, [ddHeader, ddRowCX9, ddRowCX7])"
proof -
  have full: "length (collectIdentifiers [resRowCX9, resRowCX7]) = length [resRowCX9, resRowCX7]"
    using collect_full [of "[resRowCX9, resRowCX7]"] by (simp add: resRowCX9_def resRowCX7_def)
  have keys: "collectIdentifiers [resRowCX9, resRowCX7] = [resCol10 resRowCX9, resCol10 resRowCX7]"
    using collect_eq [OF full] by simp
  have rows: "putV (resCol10 resRowCX9) (putAE (newRowOf ''02/11/2025'' resRowCX9) blankRow) = ddRowCX9"
    "putV (resCol10 resRowCX7) (putAE (newRowOf ''02/11/2025'' resRowCX7) blankRow) = ddRowCX7"
    by (simp_all add: putV_def putAE_def newRowOf_def blankRow_def ddRowCX9_def ddRowCX7_def
        resRowCX9_def resRowCX7_def)
  have "\<not> length [resHeader, resRowCX9, resRowCX7] < 2" by simp
  then show ?thesis
    by (simp add: update_unfold Let_def today_feb11 existing_header last_header keys
        setValues_after_header setValues_over_rows rows)
qed

theorem C1_idempotent_append_witness:
  "0 < getLastPopulatedRowInColumns [ddHeader]
   \<and> updateDailyDetails feb11 (Some [ddHeader]) (Some [resHeader, resRowCX9, resRowCX7])
       = Inr (Appended True, [ddHeader, ddRowCX9, ddRowCX7])
   \<and> getTodayString (Date 2025 2 11) = getTodayString feb11
   \<and> {k \<in> resCol10 ` set (tl [resHeader, resRowCX7, resRowCX9]). k \<noteq> []}
       = resCol10 ` set (tl [resHeader, resRowCX9, resRowCX7])
   \<and> updateDailyDetails (Date 2025 2 11) (Some [ddHeader, ddRowCX9, ddRowCX7])
         (Some [resHeader, resRowCX7, resRowCX9])
       = Inr (DuplicatesDetected [''02/11/2025|CX7|N/A|BW3'', ''02/11/2025|CX9|Marquis Thomas|BW2''],
              [ddHeader, ddRowCX9, ddRowCX7])
   \<and> distinct (map resCol10 (tl [resHeader, resRowCX9, resRowCX7]))
   \<and> \<not> (\<exists>sh1. updateDailyDetails feb11 (Some [ddHeader]) (Some [resHeader, resRowCX9, resRowCX9])
               = Inr (Appended True, sh1))"
proof -
  have h1: "0 < getLastPopulatedRowInColumns [ddHeader]" by (simp add: last_header)
  note h2 = first_run_two_rows
  have h3: "getTodayString (Date 2025 2 11) = getTodayString feb11" by (simp add: feb11_def)
  have h4: "{k \<in> resCol10 ` set (tl [resHeader, resRowCX7, resRowCX9]). k \<noteq> []}
       = resCol10 ` set (tl [resHeader, resRowCX9, resRowCX7])"
    by (auto simp: resRowCX9_def resRowCX7_def)
  have k: "collectIdentifiers (tl [resHeader, resRowCX7, resRowCX9])
      = [''02/11/2025|CX7|N/A|BW3'', ''02/11/2025|CX9|Marquis Thomas|BW2'']"
    by (simp add: collectIdentifiers_def setAdd_def resRowCX9_def resRowCX7_def)
  from C1_idempotent_append [of feb11 "[ddHeader]" "[resHeader, resRowCX9, resRowCX7]"
      "[ddHeader, ddRowCX9, ddRowCX7]" "Date 2025 2 11" "[resHeader, resRowCX7, resRowCX9]"]
    h1 h2 h3 h4
  have "\<exists>dups. updateDailyDetails (Date 2025 2 11) (Some [ddHeader, ddRowCX9, ddRowCX7])
         (Some [resHeader, resRowCX7, resRowCX9])
       = Inr (DuplicatesDetected dups, [ddHeader, ddRowCX9, ddRowCX7])
       \<and> dups = collectIdentifiers (tl [resHeader, resRowCX7, resRowCX9])"
    by blast
  then have "updateDailyDetails (Date 2025 2 11) (Some [ddHeader, ddRowCX9, ddRowCX7])
         (Some [resHeader, resRowCX7, resRowCX9])
       = Inr (DuplicatesDetected [''02/11/2025|CX7|N/A|BW3'', ''02/11/2025|CX9|Marquis Thomas|BW2''],
              [ddHeader, ddRowCX9, ddRowCX7])"
    by (auto simp only: k)
  moreover from C1_idempotent_append [of feb11 "[ddHeader]" "[resHeader, resRowCX9, resRowCX7]"] h2
  have "distinct (map resCol10 (tl [resHeader, resRowCX9, resRowCX7]))"
    by blast
  moreover have "\<not> distinct (map resCol10 (tl [resHeader, resRowCX9, resRowCX9]))" by simp
  with C1_idempotent_append [of feb11 "[ddHeader]" "[resHeader, resRowCX9, resRowCX9]"]
  have "\<not> (\<exists>sh1. updateDailyDetails feb11 (Some [ddHeader]) (Some [resHeader, resRowCX9, resRowCX9])
               = Inr (Appended True, sh1))"
    by blast
  ultimately show ?thesis using h1 h2 h3 h4 by (intro conjI)
qed

lemma first_run_shared_key:
  "updateDailyDetails feb11 (Some [ddHeader]) (Some [resHeader, resRowCX9, resRowCX9])
     = Inr (Appended False, [ddHeader, unkeyedRowCX9, unkeyedRowCX9])"
proof -
  have keys: "length (collectIdentifiers [resRowCX9, resRowCX9]) \<noteq> length [resRowCX9, resRowCX9]"
    using collect_full [of "[resRowCX9, resRowCX9]"] by simp
  have rows: "putAE (newRowOf ''02/11/2025'' resRowCX9) blankRow = unkeyedRowCX9"
    by (simp add: putAE_def newRowOf_def blankRow_def unkeyedRowCX9_def resRowCX9_def)
  have "\<not> length [resHeader, resRowCX9, resRowCX9] < 2" by simp
  then show ?thesis
    using keys
    by (simp add: update_unfold Let_def today_feb11 existing_header last_header
        setValues_after_header rows)
qed

lemma last_unkeyed: "getLastPopulatedRowInColumns [ddHeader, unkeyedRowCX9, unkeyedRowCX9] = 3"
  by (simp add: getLastPopulatedRowInColumns_def rowPopulated_def ddHeader_def unkeyedRowCX9_def
      trimsToEmpty_def isWhitespace_def)

lemma second_run_shared_key:
  "updateDailyDetails feb11 (Some [ddHeader, unkeyedRowCX9, unkeyedRowCX9]) (Some [resHeader, resRowCX9, resRowCX9])
     = Inr (Appended False, [ddHeader, unkeyedRowCX9, unkeyedRowCX9, unkeyedRowCX9, unkeyedRowCX9])"
proof -
  have keys: "length (collectIdentifiers [resRowCX9, resRowCX9]) \<noteq> length [resRowCX9, resRowCX9]"
    using collect_full [of "[resRowCX9, resRowCX9]"] by simp
  have c: "set (collectIdentifiers [resRowCX9, resRowCX9]) = {resCol10 resRowCX9}"
    by (auto simp: collect_set resRowCX9_def)
  have e: "set (getExistingUniqueIdentifiers [ddHeader, unkeyedRowCX9, unkeyedRowCX9] (getTodayString feb11)) \<subseteq> {[]}"
    by (auto simp: existing_today unkeyedRowCX9_def)
  have "resCol10 resRowCX9 \<noteq> []" by (simp add: resRowCX9_def)
  with c e have nodup: "filter (\<lambda>uid. uid \<in> set (getExistingUniqueIdentifiers [ddHeader, unkeyedRowCX9, unkeyedRowCX9] (getTodayString feb11)))
      (collectIdentifiers [resRowCX9, resRowCX9]) = []"
    by (auto simp: filter_empty_conv)
  have rows: "putAE (newRowOf ''02/11/2025'' resRowCX9) blankRow = unkeyedRowCX9"
    by (simp add: putAE_def newRowOf_def blankRow_def unkeyedRowCX9_def resRowCX9_def)
  have sv: "setValues putAE 3 [newRowOf ''02/11/2025'' resRowCX9, newRowOf ''02/11/2025'' resRowCX9]
      [ddHeader, unkeyedRowCX9, unkeyedRowCX9]
      = [ddHeader, unkeyedRowCX9, unkeyedRowCX9, unkeyedRowCX9, unkeyedRowCX9]"
    by (simp add: setValues_def padTo_def Let_def rows numeral_2_eq_2)
  have "\<not> length [resHeader, resRowCX9, resRowCX9] < 2" by simp
  then show ?thesis
    using keys nodup
    by (simp add: update_unfold Let_def last_unkeyed sv today_feb11)
qed

lemma first_run_blank:
  "updateDailyDetails feb11 (Some []) (Some [resHeader, resRowCX9]) = Inr (Appended True, [ddRowCX9])"
proof -
  have l: "getLastPopulatedRowInColumns [] = 0" by (simp add: getLastPopulatedRowInColumns_def)
  have e: "getExistingUniqueIdentifiers [] ''02/11/2025'' = []"
    by (simp add: getExistingUniqueIdentifiers_def l)
  have sv: "\<And>put a. setValues put 0 [a] [] = [put a blankRow]"
    by (simp add: setValues_def padTo_def Let_def)
  have sv2: "\<And>put a x. setValues put 0 [a] [x] = [put a x]"
    by (simp add: setValues_def padTo_def Let_def)
  have "\<not> length [resHeader, resRowCX9] < 2" by simp
  then show ?thesis
    by (simp add: update_unfold Let_def today_feb11 e l collect_CX9 sv sv2 appended_CX9)
qed

text \<open>
  The claim as written fails in two ways. Two results rows that share one key are appended
  without keys, so a second run with the same rows finds no duplicate and appends them
  again. And on a sheet that is blank in columns A to E the batch is written from row 1
  on, which the scan for duplicates never reads: the second run appends the same record
  once more, although its key was written.
\<close>

theorem C1_counterexample:
  "updateDailyDetails feb11 (Some [ddHeader]) (Some [resHeader, resRowCX9, resRowCX9])
     = Inr (Appended False, [ddHeader, unkeyedRowCX9, unkeyedRowCX9])
   \<and> updateDailyDetails feb11 (Some [ddHeader, unkeyedRowCX9, unkeyedRowCX9]) (Some [resHeader, resRowCX9, resRowCX9])
     = Inr (Appended False, [ddHeader, unkeyedRowCX9, unkeyedRowCX9, unkeyedRowCX9, unkeyedRowCX9])
   \<and> updateDailyDetails feb11 (Some []) (Some [resHeader, resRowCX9]) = Inr (Appended True, [ddRowCX9])
   \<and> updateDailyDetails feb11 (Some [ddRowCX9]) (Some [resHeader, resRowCX9])
     = Inr (Appended True, [ddRowCX9, ddRowCX9])"
  using first_run_shared_key second_run_shared_key first_run_blank append_below_CX9
  by (intro conjI)

subsection \<open>The identity key of an appended record\<close>

lemma rebuildRow_key:
  "resCol10 (rebuildRow today m r) =
     uniqueIdentifier today (resCol0 (rebuildRow today m r)) (resCol9 (rebuildRow today m r))
       (resCol5 (rebuildRow today m r))"
  by (simp add: rebuildRow_def Let_def)

lemma rebuilt_rows_keyed:
  assumes "updateResultsWithDailyRoutes clock (Some results0) dailyRoutesObj = Inr resultsData"
    and "\<not> length resultsData < 2"
  shows "length (tl resultsData) = length (tl results0)"
    and "\<forall>k < length (tl resultsData).
           resCol10 (tl resultsData ! k) =
             uniqueIdentifier (getTodayString (clock k)) (resCol0 (tl resultsData ! k))
               (resCol9 (tl resultsData ! k)) (resCol5 (tl resultsData ! k))"
proof -
  from assms have rd: "resultsData =
      hd results0 # map (\<lambda>i. rebuildRow (getTodayString (clock i)) (routeToDriver dailyRoutesObj)
                                (tl results0 ! i)) [0..<length (tl results0)]"
    by (auto simp: updateResultsWithDailyRoutes_def split: if_splits)
  show "length (tl resultsData) = length (tl results0)" by (subst rd) simp
  show "\<forall>k < length (tl resultsData).
           resCol10 (tl resultsData ! k) =
             uniqueIdentifier (getTodayString (clock k)) (resCol0 (tl resultsData ! k))
               (resCol9 (tl resultsData ! k)) (resCol5 (tl resultsData ! k))"
  proof (intro allI impI)
    fix k assume "k < length (tl resultsData)"
    then have k: "k < length (tl results0)" by (subst (asm) rd) simp
    have "tl resultsData ! k =
        rebuildRow (getTodayString (clock k)) (routeToDriver dailyRoutesObj) (tl results0 ! k)"
      using k by (subst rd) simp
    then show "resCol10 (tl resultsData ! k) =
             uniqueIdentifier (getTodayString (clock k)) (resCol0 (tl resultsData ! k))
               (resCol9 (tl resultsData ! k)) (resCol5 (tl resultsData ! k))"
      by (simp only: rebuildRow_key)
  qed
qed

text \<open>
  C3 (as amended). Take the Results sheet as updateResultsWithDailyRoutes leaves it and let
  updateDailyDetails append it with its keys (the run ends in \<open>Appended True\<close>), on the same
  day: the clock shows the same date each time a row is rebuilt and when the batch is
  appended. Then every appended record, the rows from the first row after the last
  populated one, holds that date as text in the format of formatDate, and the key in its
  column V is its date, route code, associate name and van id joined by single pipe
  characters in that order. The rows that were in the sheet before are unchanged.
\<close>

theorem C3_key_round_trip:
  fixes sh :: sheet
  defines "L \<equiv> getLastPopulatedRowInColumns sh"
  assumes rebuilt: "updateResultsWithDailyRoutes clock (Some results0) dailyRoutesObj = Inr resultsData"
    and appended: "updateDailyDetails now (Some sh) (Some resultsData) = Inr (Appended True, sh')"
    and sameday: "\<forall>i < length (tl results0). getTodayString (clock i) = getTodayString now"
  shows "(\<forall>k < length (tl resultsData).
            colA (sh' ! (L + k)) = Txt (formatDate now)
          \<and> colV (sh' ! (L + k)) =
              existingDate (colA (sh' ! (L + k))) @ ''|'' @ colB (sh' ! (L + k)) @ ''|''
                @ colC (sh' ! (L + k)) @ ''|'' @ colE (sh' ! (L + k)))
     \<and> length sh' = max (length sh) (L + length (tl resultsData))
     \<and> (\<forall>i < length sh. i < L \<or> L + length (tl resultsData) \<le> i \<longrightarrow> sh' ! i = sh ! i)"
proof -
  note a = appended_with_keys [OF appended]
  note keyed = rebuilt_rows_keyed [OF rebuilt a(1)]
  have rows: "\<forall>k < length (tl resultsData).
            colA (sh' ! (L + k)) = Txt (formatDate now)
          \<and> colV (sh' ! (L + k)) =
              existingDate (colA (sh' ! (L + k))) @ ''|'' @ colB (sh' ! (L + k)) @ ''|''
                @ colC (sh' ! (L + k)) @ ''|'' @ colE (sh' ! (L + k))"
  proof (intro allI impI)
    fix k assume k: "k < length (tl resultsData)"
    let ?r = "tl resultsData ! k"
    from a(4) k have row: "sh' ! (L + k) =
        putV (resCol10 ?r) (putAE (newRowOf (getTodayString now) ?r) (rowAt sh (L + k)))"
      unfolding L_def by blast
    from k keyed(1) have "k < length (tl results0)" by simp
    with sameday have day: "getTodayString (clock k) = getTodayString now" by blast
    from keyed(2) k have "resCol10 ?r =
        uniqueIdentifier (getTodayString (clock k)) (resCol0 ?r) (resCol9 ?r) (resCol5 ?r)"
      by blast
    then have key: "resCol10 ?r =
        uniqueIdentifier (getTodayString now) (resCol0 ?r) (resCol9 ?r) (resCol5 ?r)"
      by (simp only: day)
    show "colA (sh' ! (L + k)) = Txt (formatDate now)
          \<and> colV (sh' ! (L + k)) =
              existingDate (colA (sh' ! (L + k))) @ ''|'' @ colB (sh' ! (L + k)) @ ''|''
                @ colC (sh' ! (L + k)) @ ''|'' @ colE (sh' ! (L + k))"
      unfolding row
      by (simp add: putV_def putAE_def newRowOf_def key uniqueIdentifier_def getTodayString_def)
  qed
  from rows a(3) a(5) show ?thesis unfolding L_def by blast
qed

lemma driver_CX9: "routeToDriver [dailyRouteCX9] = [''CX9'' \<mapsto> ''Marquis Thomas'']"
  by (simp add: routeToDriver_def dailyRouteCX9_def orNA_def)

lemma rebuild_CX9:
  "rebuildRow ''02/11/2025'' [''CX9'' \<mapsto> ''Marquis Thomas''] resRowCX9 = resRowCX9"
  by (simp add: rebuildRow_def getMember_def uniqueIdentifier_def orNA_def resRowCX9_def)

lemma rebuild_CX7:
  "rebuildRow ''02/11/2025'' [''CX9'' \<mapsto> ''Marquis Thomas''] resRowCX7 = resRowCX7"
  by (simp add: rebuildRow_def getMember_def uniqueIdentifier_def orNA_def resRowCX7_def
      objectPrototypeMembers_def)

lemma rebuilt_CX9_CX7:
  "updateResultsWithDailyRoutes (\<lambda>i. feb11) (Some [resHeader, resRowCX9, resRowCX7]) [dailyRouteCX9]
     = Inr [resHeader, resRowCX9, resRowCX7]"
  by (simp add: updateResultsWithDailyRoutes_def today_feb11 driver_CX9 upt_rec numeral_2_eq_2
      rebuild_CX9 rebuild_CX7)

theorem C3_key_round_trip_witness:
  "updateResultsWithDailyRoutes (\<lambda>i. feb11) (Some [resHeader, resRowCX9, resRowCX7]) [dailyRouteCX9]
     = Inr [resHeader, resRowCX9, resRowCX7]
   \<and> updateDailyDetails feb11 (Some [ddHeader]) (Some [resHeader, resRowCX9, resRowCX7])
       = Inr (Appended True, [ddHeader, ddRowCX9, ddRowCX7])
   \<and> colV ddRowCX9 = existingDate (colA ddRowCX9) @ ''|'' @ colB ddRowCX9 @ ''|'' @ colC ddRowCX9 @ ''|'' @ colE ddRowCX9
   \<and> colV ddRowCX7 = existingDate (colA ddRowCX7) @ ''|'' @ colB ddRowCX7 @ ''|'' @ colC ddRowCX7 @ ''|'' @ colE ddRowCX7"
proof -
  note h1 = rebuilt_CX9_CX7
  note h2 = first_run_two_rows
  have h3: "\<forall>i < length (tl [resHeader, resRowCX9, resRowCX7]).
      getTodayString ((\<lambda>i. feb11) i) = getTodayString feb11"
    by simp
  from C3_key_round_trip [OF h1 h2 h3]
  have c: "\<forall>k < length (tl [resHeader, resRowCX9, resRowCX7]).
      colV ([ddHeader, ddRowCX9, ddRowCX7] ! (getLastPopulatedRowInColumns [ddHeader] + k)) =
        existingDate (colA ([ddHeader, ddRowCX9, ddRowCX7] ! (getLastPopulatedRowInColumns [ddHeader] + k))) @ ''|''
          @ colB ([ddHeader, ddRowCX9, ddRowCX7] ! (getLastPopulatedRowInColumns [ddHeader] + k)) @ ''|''
          @ colC ([ddHeader, ddRowCX9, ddRowCX7] ! (getLastPopulatedRowInColumns [ddHeader] + k)) @ ''|''
          @ colE ([ddHeader, ddRowCX9, ddRowCX7] ! (getLastPopulatedRowInColumns [ddHeader] + k))"
    by blast
  from c [rule_format, of 0]
  have c0: "colV ddRowCX9 = existingDate (colA ddRowCX9) @ ''|'' @ colB ddRowCX9 @ ''|'' @ colC ddRowCX9 @ ''|'' @ colE ddRowCX9"
    by (simp add: last_header)
  from c [rule_format, of 1]
  have c1: "colV ddRowCX7 = existingDate (colA ddRowCX7) @ ''|'' @ colB ddRowCX7 @ ''|'' @ colC ddRowCX7 @ ''|'' @ colE ddRowCX7"
    by (simp add: last_header)
  from h1 h2 c0 c1 show ?thesis by (intro conjI)
qed

lemma rebuilt_CX9_twice:
  "updateResultsWithDailyRoutes (\<lambda>i. feb11) (Some [resHeader, resRowCX9, resRowCX9]) [dailyRouteCX9]
     = Inr [resHeader, resRowCX9, resRowCX9]"
  by (simp add: updateResultsWithDailyRoutes_def today_feb11 driver_CX9 upt_rec numeral_2_eq_2
      rebuild_CX9)

lemma rebuilt_CX9_once:
  "updateResultsWithDailyRoutes (\<lambda>i. feb11) (Some [resHeader, resRowCX9]) [dailyRouteCX9]
     = Inr [resHeader, resRowCX9]"
  by (simp add: updateResultsWithDailyRoutes_def today_feb11 driver_CX9 rebuild_CX9)

lemma today_feb12: "getTodayString feb12 = ''02/12/2025''"
  by (simp add: getTodayString_def formatDate_def feb12_def digit_def)

lemma appended_next_day:
  "updateDailyDetails feb12 (Some [ddHeader]) (Some [resHeader, resRowCX9])
     = Inr (Appended True, [ddHeader, ddRowCX9Late])"
proof -
  have sv: "\<And>put a. setValues put (Suc 0) [a] [ddHeader] = [ddHeader, put a blankRow]"
    by (simp add: setValues_def padTo_def Let_def)
  have sv2: "\<And>put a x. setValues put (Suc 0) [a] [ddHeader, x] = [ddHeader, put a x]"
    by (simp add: setValues_def padTo_def Let_def)
  have row: "putV (resCol10 resRowCX9) (putAE (newRowOf ''02/12/2025'' resRowCX9) blankRow) = ddRowCX9Late"
    by (simp add: putV_def putAE_def newRowOf_def blankRow_def ddRowCX9Late_def resRowCX9_def)
  have "\<not> length [resHeader, resRowCX9] < 2" by simp
  then show ?thesis
    by (simp add: update_unfold Let_def today_feb12 existing_header last_header collect_CX9
        sv sv2 row)
qed

text \<open>
  The claim as written fails in two ways. When two rows of the Results sheet name the same
  route and van, their rebuilt keys coincide, the count test fails, and both records are
  appended with an empty column V, which is not the key their fields derive. And a Results
  sheet rebuilt on 11 February and appended on 12 February gives a record dated 12
  February whose stored key starts with 11 February.
\<close>

theorem C3_counterexample:
  "updateResultsWithDailyRoutes (\<lambda>i. feb11) (Some [resHeader, resRowCX9, resRowCX9]) [dailyRouteCX9]
     = Inr [resHeader, resRowCX9, resRowCX9]
   \<and> updateDailyDetails feb11 (Some [ddHeader]) (Some [resHeader, resRowCX9, resRowCX9])
       = Inr (Appended False, [ddHeader, unkeyedRowCX9, unkeyedRowCX9])
   \<and> colV unkeyedRowCX9 = []
   \<and> existingDate (colA unkeyedRowCX9) @ ''|'' @ colB unkeyedRowCX9 @ ''|'' @ colC unkeyedRowCX9
        @ ''|'' @ colE unkeyedRowCX9 = ''02/11/2025|CX9|Marquis Thomas|BW2''
   \<and> updateResultsWithDailyRoutes (\<lambda>i. feb11) (Some [resHeader, resRowCX9]) [dailyRouteCX9]
     = Inr [resHeader, resRowCX9]
   \<and> updateDailyDetails feb12 (Some [ddHeader]) (Some [resHeader, resRowCX9])
       = Inr (Appended True, [ddHeader, ddRowCX9Late])
   \<and> colV ddRowCX9Late = ''02/11/2025|CX9|Marquis Thomas|BW2''
   \<and> existingDate (colA ddRowCX9Late) @ ''|'' @ colB ddRowCX9Late @ ''|'' @ colC ddRowCX9Late
        @ ''|'' @ colE ddRowCX9Late = ''02/12/2025|CX9|Marquis Thomas|BW2''"
proof -
  have a: "colV unkeyedRowCX9 = []"
    "existingDate (colA unkeyedRowCX9) @ ''|'' @ colB unkeyedRowCX9 @ ''|'' @ colC unkeyedRowCX9
        @ ''|'' @ colE unkeyedRowCX9 = ''02/11/2025|CX9|Marquis Thomas|BW2''"
    by (simp_all add: unkeyedRowCX9_def)
  have b: "colV ddRowCX9Late = ''02/11/2025|CX9|Marquis Thomas|BW2''"
    "existingDate (colA ddRowCX9Late) @ ''|'' @ colB ddRowCX9Late @ ''|'' @ colC ddRowCX9Late
        @ ''|'' @ colE ddRowCX9Late = ''02/12/2025|CX9|Marquis Thomas|BW2''"
    by (simp_all add: ddRowCX9Late_def)
  from rebuilt_CX9_twice first_run_shared_key a rebuilt_CX9_once appended_next_day b
  show ?thesis by (intro conjI)
qed

subsection \<open>Pace sources\<close>

lemma setProperty_keys: "map fst (setProperty k v pd) = map fst pd"
  by (induction pd) (auto simp: setProperty_def)

lemma form_step_keys: "map fst (form_step van date row pd) = map fst pd"
  by (simp add: form_step_def setProperty_keys split: option.splits)

lemma fold_form_step_keys: "map fst (fold (form_step van date) rows pd) = map fst pd"
  by (induction rows arbitrary: pd) (simp_all add: form_step_keys)

lemma map_of_setProperty:
  "map_of (setProperty k v pd) l =
     (if l = k then (if k \<in> fst ` set pd then Some v else None) else map_of pd l)"
proof (induction pd)
  case Nil
  show ?case by (simp add: setProperty_def)
next
  case (Cons e pd)
  obtain k' v' where e: "e = (k', v')" by (cases e)
  have step: "setProperty k v (e # pd) = (if k' = k then (k', v) else (k', v')) # setProperty k v pd"
    by (simp add: setProperty_def e)
  have img: "(k \<in> fst ` set (e # pd)) = (k' = k \<or> k \<in> fst ` set pd)"
    by (auto simp: e)
  show ?case
    unfolding step img using Cons.IH by (cases "k' = k"; cases "l = k") (simp_all add: e)
qed

lemma getProperty_setProperty:
  "getProperty (setProperty k v pd) l =
     (if l = k \<and> hasOwnProperty pd k then v else getProperty pd l)"
proof (cases "l = k \<and> hasOwnProperty pd k")
  case True
  then show ?thesis by (simp add: getProperty_def map_of_setProperty hasOwnProperty_def)
next
  case False
  show ?thesis
  proof (cases "l = k")
    case True
    with False have "k \<notin> fst ` set pd" by (simp add: hasOwnProperty_def)
    then have "map_of pd k = None" by (simp add: map_of_eq_None_iff)
    with True False show ?thesis by (simp add: getProperty_def map_of_setProperty hasOwnProperty_def)
  next
    case False
    then show ?thesis by (simp add: getProperty_def map_of_setProperty)
  qed
qed

lemma getProperty_form_step:
  "getProperty (form_step van date row pd) l =
     (if frVanId row = van \<and> rowDateIs (frDate row) date
         \<and> timeKeyOf (frReportingTime row) = Some l \<and> hasOwnProperty pd l
      then Some (frDeliveryCount row) else getProperty pd l)"
  by (auto simp: form_step_def getProperty_setProperty split: option.splits)

lemma hasOwnProperty_fold:
  "hasOwnProperty (fold (form_step van date) rows pd) l = hasOwnProperty pd l"
  by (simp add: hasOwnProperty_def fold_form_step_keys)

text \<open>
  After the loop over the submissions a slot is non-null exactly when it was so before or a
  row for this van and date names it.
\<close>

lemma fold_form_step_reported:
  "(getProperty (fold (form_step van date) rows pd) l \<noteq> None) =
     (getProperty pd l \<noteq> None \<or>
      (hasOwnProperty pd l \<and>
       (\<exists>row \<in> set rows. frVanId row = van \<and> rowDateIs (frDate row) date
                           \<and> timeKeyOf (frReportingTime row) = Some l)))"
proof (induction rows arbitrary: pd)
  case Nil
  show ?case by simp
next
  case (Cons row rows)
  have h: "hasOwnProperty (form_step van date row pd) l = hasOwnProperty pd l"
    by (simp add: hasOwnProperty_def form_step_keys)
  show ?case
    by (simp only: fold_Cons o_apply Cons.IH h getProperty_form_step) auto
qed

lemma hasData_iff: "hasData pd = (\<exists>l \<in> set (map fst pd). getProperty pd l \<noteq> None)"
  by (simp only: hasData_def list_ex_iff)

lemma initial_keys: "map fst initialPaceData = TIME_SLOTS"
  by (simp add: initialPaceData_def o_def)

lemma initial_null: "getProperty initialPaceData l = None"
  by (simp add: initialPaceData_def getProperty_def TIME_SLOTS_def)

lemma forms_result:
  "getDeliveryPaceDataFromForms (FormsRows data) van date =
     (if \<exists>l \<in> set TIME_SLOTS. getProperty (fold (form_step van date) (tl data) initialPaceData) l \<noteq> None
      then Some (fold (form_step van date) (tl data) initialPaceData) else None)"
  by (simp only: getDeliveryPaceDataFromForms_def Let_def hasData_iff fold_form_step_keys initial_keys
      forms_sheet.simps)

lemma forms_some:
  assumes "getDeliveryPaceDataFromForms forms van date = Some formData"
  shows "map fst formData = TIME_SLOTS"
    and "\<exists>l \<in> set TIME_SLOTS. getProperty formData l \<noteq> None"
proof -
  from assms obtain data where f: "forms = FormsRows data"
    by (cases forms) (simp_all add: getDeliveryPaceDataFromForms_def)
  from assms have fd: "formData = fold (form_step van date) (tl data) initialPaceData"
    and y: "\<exists>l \<in> set TIME_SLOTS. getProperty (fold (form_step van date) (tl data) initialPaceData) l \<noteq> None"
    unfolding f forms_result by (simp_all split: if_splits)
  show "map fst formData = TIME_SLOTS" by (simp add: fd fold_form_step_keys initial_keys)
  show "\<exists>l \<in> set TIME_SLOTS. getProperty formData l \<noteq> None" using y by (simp only: fd)
qed

text \<open>
  C8. The form submissions come first: when they yield a record, that record has the five
  slots, at least one of them non-null, and it is the result as it stands, nulls included,
  whatever the fallback holds. The form source yields a record exactly when a row below
  the header for this van and date names one of the five slots; when every slot is still
  null after the loop it yields nothing, and the result is the fallback record as it
  stands. If the fallback record has no value either, the result has none. (The fallback
  as shipped, getDeliveryPaceDataFromSource, has a value in every slot.)
\<close>

theorem C8_pace_source_priority:
  "(getDeliveryPaceDataFromForms forms1 van1 date1 = Some formData \<longrightarrow>
      getDeliveryPaceData forms1 fallback1 van1 date1 = formData
      \<and> map fst formData = TIME_SLOTS
      \<and> (\<exists>l \<in> set TIME_SLOTS. getProperty formData l \<noteq> None))
   \<and> (getDeliveryPaceDataFromForms forms2 van2 date2 = None \<longrightarrow>
      getDeliveryPaceData forms2 fallback2 van2 date2 = fallback2)
   \<and> ((getDeliveryPaceDataFromForms (FormsRows data) van date = None)
       = (\<forall>l \<in> set TIME_SLOTS. getProperty (fold (form_step van date) (tl data) initialPaceData) l = None))
   \<and> ((getDeliveryPaceDataFromForms (FormsRows data) van date = None)
       = (\<not> (\<exists>row \<in> set (tl data). frVanId row = van \<and> rowDateIs (frDate row) date
               \<and> (\<exists>l \<in> set TIME_SLOTS. timeKeyOf (frReportingTime row) = Some l))))
   \<and> (getDeliveryPaceDataFromForms forms3 van3 date3 = None
        \<and> (\<forall>l \<in> set TIME_SLOTS. getProperty fallback3 l = None)
      \<longrightarrow> (\<forall>l \<in> set TIME_SLOTS. getProperty (getDeliveryPaceData forms3 fallback3 van3 date3) l = None))
   \<and> (\<forall>l \<in> set TIME_SLOTS. getProperty (getDeliveryPaceDataFromSource r20 r30 r50 r60 r70) l \<noteq> None)"
proof (intro conjI impI)
  assume s: "getDeliveryPaceDataFromForms forms1 van1 date1 = Some formData"
  have k: "map fst formData = TIME_SLOTS" using s by (rule forms_some)
  show "map fst formData = TIME_SLOTS" by (rule k)
  show "\<exists>l \<in> set TIME_SLOTS. getProperty formData l \<noteq> None" using s by (rule forms_some)
  show "getDeliveryPaceData forms1 fallback1 van1 date1 = formData"
    using s k by (simp add: getDeliveryPaceData_def TIME_SLOTS_def)
next
  assume "getDeliveryPaceDataFromForms forms2 van2 date2 = None"
  then show "getDeliveryPaceData forms2 fallback2 van2 date2 = fallback2"
    by (simp add: getDeliveryPaceData_def)
next
  show "(getDeliveryPaceDataFromForms (FormsRows data) van date = None)
       = (\<forall>l \<in> set TIME_SLOTS. getProperty (fold (form_step van date) (tl data) initialPaceData) l = None)"
    by (simp add: forms_result)
next
  have own: "\<And>l. l \<in> set TIME_SLOTS \<Longrightarrow> hasOwnProperty initialPaceData l"
    by (simp add: hasOwnProperty_def initial_keys)
  have rep: "\<And>l. l \<in> set TIME_SLOTS \<Longrightarrow>
      (getProperty (fold (form_step van date) (tl data) initialPaceData) l \<noteq> None) =
      (\<exists>row \<in> set (tl data). frVanId row = van \<and> rowDateIs (frDate row) date
                           \<and> timeKeyOf (frReportingTime row) = Some l)"
    by (simp only: fold_form_step_reported initial_null own) simp
  have "(\<exists>l \<in> set TIME_SLOTS. getProperty (fold (form_step van date) (tl data) initialPaceData) l \<noteq> None)
      = (\<exists>row \<in> set (tl data). frVanId row = van \<and> rowDateIs (frDate row) date
               \<and> (\<exists>l \<in> set TIME_SLOTS. timeKeyOf (frReportingTime row) = Some l))"
    using rep by blast
  then show "(getDeliveryPaceDataFromForms (FormsRows data) van date = None)
       = (\<not> (\<exists>row \<in> set (tl data). frVanId row = van \<and> rowDateIs (frDate row) date
               \<and> (\<exists>l \<in> set TIME_SLOTS. timeKeyOf (frReportingTime row) = Some l)))"
    unfolding forms_result by auto
next
  assume a: "getDeliveryPaceDataFromForms forms3 van3 date3 = None
        \<and> (\<forall>l \<in> set TIME_SLOTS. getProperty fallback3 l = None)"
  then show "\<forall>l \<in> set TIME_SLOTS. getProperty (getDeliveryPaceData forms3 fallback3 van3 date3) l = None"
    by (simp add: getDeliveryPaceData_def)
next
  show "\<forall>l \<in> set TIME_SLOTS. getProperty (getDeliveryPaceDataFromSource r20 r30 r50 r60 r70) l \<noteq> None"
    by (simp add: getDeliveryPaceDataFromSource_def Let_def getProperty_def TIME_SLOTS_def)
qed

lemma timeKey_end_of_day: "timeKeyOf (Txt ''9:40 PM (End of Day)'') = Some ''9:40 PM''"
  by (simp add: trimsToEmpty_def isWhitespace_def)

lemma date_feb11: "formatDate (Date 2025 2 11) = ''02/11/2025''"
  by (simp add: formatDate_def digit_def)

lemma forms_BW2:
  "getDeliveryPaceDataFromForms (FormsRows [formHeader, formRowBW2]) ''BW2'' ''02/11/2025'' = Some formRecordBW2"
  by (simp add: getDeliveryPaceDataFromForms_def Let_def form_step_def formRowBW2_def
      trimsToEmpty_def isWhitespace_def date_feb11 initialPaceData_def TIME_SLOTS_def hasOwnProperty_def
      setProperty_def hasData_def getProperty_def formRecordBW2_def)

lemma forms_BW9:
  "getDeliveryPaceDataFromForms (FormsRows [formHeader, formRowBW2]) ''BW9'' ''02/11/2025'' = None"
  by (simp add: getDeliveryPaceDataFromForms_def Let_def form_step_def formRowBW2_def
      initialPaceData_def TIME_SLOTS_def hasData_def getProperty_def)

lemma forms_absent: "getDeliveryPaceDataFromForms FormsSheetAbsent ''BW9'' ''02/11/2025'' = None"
  by (simp add: getDeliveryPaceDataFromForms_def)

lemma emptyRecord_null: "\<forall>l \<in> set TIME_SLOTS. getProperty emptyRecord l = None"
  by (simp add: emptyRecord_def getProperty_def TIME_SLOTS_def)

theorem C8_pace_source_priority_witness:
  "getDeliveryPaceDataFromForms (FormsRows [formHeader, formRowBW2]) ''BW2'' ''02/11/2025'' = Some formRecordBW2
   \<and> getDeliveryPaceData (FormsRows [formHeader, formRowBW2]) fallbackRecord ''BW2'' ''02/11/2025'' = formRecordBW2
   \<and> getProperty (getDeliveryPaceData (FormsRows [formHeader, formRowBW2]) fallbackRecord ''BW2'' ''02/11/2025'') ''1:40 PM'' = None
   \<and> getProperty fallbackRecord ''1:40 PM'' = Some (Num 5)
   \<and> getDeliveryPaceDataFromForms (FormsRows [formHeader, formRowBW2]) ''BW9'' ''02/11/2025'' = None
   \<and> getDeliveryPaceData (FormsRows [formHeader, formRowBW2]) fallbackRecord ''BW9'' ''02/11/2025'' = fallbackRecord
   \<and> getDeliveryPaceDataFromForms FormsSheetAbsent ''BW9'' ''02/11/2025'' = None
   \<and> getProperty (getDeliveryPaceData FormsSheetAbsent emptyRecord ''BW9'' ''02/11/2025'') ''1:40 PM'' = None
   \<and> getProperty (getDeliveryPaceData FormsSheetAbsent emptyRecord ''BW9'' ''02/11/2025'') ''9:40 PM'' = None"
proof -
  note c8 = C8_pace_source_priority [where ?forms1.0 = "FormsRows [formHeader, formRowBW2]"
      and ?van1.0 = "''BW2''" and ?date1.0 = "''02/11/2025''" and formData = formRecordBW2
      and ?fallback1.0 = fallbackRecord
      and ?forms2.0 = "FormsRows [formHeader, formRowBW2]" and ?van2.0 = "''BW9''"
      and ?date2.0 = "''02/11/2025''" and ?fallback2.0 = fallbackRecord
      and ?forms3.0 = FormsSheetAbsent and ?van3.0 = "''BW9''" and ?date3.0 = "''02/11/2025''"
      and ?fallback3.0 = emptyRecord]
  from c8 forms_BW2
  have a: "getDeliveryPaceData (FormsRows [formHeader, formRowBW2]) fallbackRecord ''BW2'' ''02/11/2025'' = formRecordBW2"
    by blast
  from c8 forms_BW9
  have b: "getDeliveryPaceData (FormsRows [formHeader, formRowBW2]) fallbackRecord ''BW9'' ''02/11/2025'' = fallbackRecord"
    by blast
  from c8 forms_absent emptyRecord_null
  have c: "\<forall>l \<in> set TIME_SLOTS. getProperty (getDeliveryPaceData FormsSheetAbsent emptyRecord ''BW9'' ''02/11/2025'') l = None"
    by blast
  have s: "''1:40 PM'' \<in> set TIME_SLOTS" "''9:40 PM'' \<in> set TIME_SLOTS"
    by (simp_all add: TIME_SLOTS_def)
  from c s have c1: "getProperty (getDeliveryPaceData FormsSheetAbsent emptyRecord ''BW9'' ''02/11/2025'') ''1:40 PM'' = None"
    and c2: "getProperty (getDeliveryPaceData FormsSheetAbsent emptyRecord ''BW9'' ''02/11/2025'') ''9:40 PM'' = None"
    by blast+
  have d: "getProperty formRecordBW2 ''1:40 PM'' = None" "getProperty fallbackRecord ''1:40 PM'' = Some (Num 5)"
    by (simp_all add: getProperty_def formRecordBW2_def fallbackRecord_def)
  from a d have d': "getProperty (getDeliveryPaceData (FormsRows [formHeader, formRowBW2]) fallbackRecord ''BW2'' ''02/11/2025'') ''1:40 PM'' = None"
    by (simp only:)
  from forms_BW2 a d' d(2) forms_BW9 b forms_absent c1 c2 show ?thesis by (intro conjI)
qed

subsection \<open>The daily summary\<close>

lemma slot_step_fold:
  "n \<le> length (slSums a) \<Longrightarrow> n \<le> length (slCounts a) \<Longrightarrow>
   (let b = fold (slot_step row) [0..<n] a in
      length (slSums b) = length (slSums a) \<and> length (slCounts b) = length (slCounts a)
    \<and> (\<forall>j < length (slSums a). slSums b ! j = slSums a ! j + (if j < n then slotValue row j else 0))
    \<and> (\<forall>j < length (slCounts a). slCounts b ! j = slCounts a ! j + (if j < n \<and> slotCounted row j then 1 else 0))
    \<and> slHasData b = (slHasData a \<or> (\<exists>j < n. slotCounted row j)))"
proof (induction n)
  case 0
  show ?case by (simp add: Let_def)
next
  case (Suc n)
  let ?b = "fold (slot_step row) [0..<n] a"
  from Suc have ih: "length (slSums ?b) = length (slSums a)" "length (slCounts ?b) = length (slCounts a)"
    "\<forall>j < length (slSums a). slSums ?b ! j = slSums a ! j + (if j < n then slotValue row j else 0)"
    "\<forall>j < length (slCounts a). slCounts ?b ! j = slCounts a ! j + (if j < n \<and> slotCounted row j then 1 else 0)"
    "slHasData ?b = (slHasData a \<or> (\<exists>j < n. slotCounted row j))"
    by (simp_all add: Let_def)
  have f: "fold (slot_step row) [0..<Suc n] a = slot_step row n ?b" by simp
  show ?case
  proof (cases "truthyNumber (paceCell row n)")
    case None
    then have s: "slot_step row n ?b = ?b" by (simp add: slot_step_def)
    have v: "slotValue row n = 0" "\<not> slotCounted row n"
      using None by (simp_all add: slotValue_def slotCounted_def)
    show ?thesis
      unfolding Let_def f s using ih v by (auto simp: less_Suc_eq)
  next
    case (Some w)
    then have s: "slSums (slot_step row n ?b) = (slSums ?b)[n := slSums ?b ! n + w]"
      "slCounts (slot_step row n ?b) = (slCounts ?b)[n := slCounts ?b ! n + 1]"
      "slHasData (slot_step row n ?b) = True"
      by (simp_all add: slot_step_def)
    have v: "slotValue row n = w" "slotCounted row n"
      using Some by (simp_all add: slotValue_def slotCounted_def)
    have n: "n < length (slSums a)" "n < length (slCounts a)" using Suc.prems by simp_all
    show ?thesis
      unfolding Let_def f
    proof (intro conjI allI impI)
      show "length (slSums (slot_step row n ?b)) = length (slSums a)" by (simp add: s ih)
      show "length (slCounts (slot_step row n ?b)) = length (slCounts a)" by (simp add: s ih)
      show "slHasData (slot_step row n ?b) = (slHasData a \<or> (\<exists>j < Suc n. slotCounted row j))"
        using v by (auto simp: s)
    next
      fix j assume j: "j < length (slSums a)"
      show "slSums (slot_step row n ?b) ! j = slSums a ! j + (if j < Suc n then slotValue row j else 0)"
        using j ih v n by (cases "j = n") (simp_all add: s less_Suc_eq)
    next
      fix j assume j: "j < length (slCounts a)"
      show "slCounts (slot_step row n ?b) ! j =
            slCounts a ! j + (if j < Suc n \<and> slotCounted row j then 1 else 0)"
        using j ih v n by (cases "j = n") (simp_all add: s less_Suc_eq)
    qed
  qed
qed

lemma summary_step_dated:
  assumes d: "rowDateIs (colA row) date"
    and l: "length (averagePace (accSummary acc)) = 5" "length (accCounts acc) = 5"
  shows "totalVans (accSummary (summary_step date row acc)) = totalVans (accSummary acc) + 1"
    and "vansWithData (accSummary (summary_step date row acc)) =
           vansWithData (accSummary acc) + (if \<exists>j < 5. slotCounted row j then 1 else 0)"
    and "length (averagePace (accSummary (summary_step date row acc))) = 5"
    and "length (accCounts (summary_step date row acc)) = 5"
    and "\<forall>j < 5. averagePace (accSummary (summary_step date row acc)) ! j =
           averagePace (accSummary acc) ! j + slotValue row j"
    and "\<forall>j < 5. accCounts (summary_step date row acc) ! j =
           accCounts acc ! j + (if slotCounted row j then 1 else 0)"
    and "sumDate (accSummary (summary_step date row acc)) = sumDate (accSummary acc)"
proof -
  let ?a = "\<lparr> slPace = [], slSums = averagePace (accSummary acc), slCounts = accCounts acc,
              slHasData = False \<rparr>"
  let ?b = "fold (slot_step row) [0..<5] ?a"
  have "5 \<le> length (slSums ?a)" "5 \<le> length (slCounts ?a)" using l by simp_all
  from slot_step_fold [OF this, of row]
  have b: "length (slSums ?b) = 5" "length (slCounts ?b) = 5"
    "\<forall>j < 5. slSums ?b ! j = averagePace (accSummary acc) ! j + slotValue row j"
    "\<forall>j < 5. slCounts ?b ! j = accCounts acc ! j + (if slotCounted row j then 1 else 0)"
    "slHasData ?b = (\<exists>j < 5. slotCounted row j)"
    using l by (simp_all add: Let_def)
  have five: "length TIME_SLOTS = 5" by (simp add: TIME_SLOTS_def)
  have st: "summary_step date row acc =
      \<lparr> accSummary =
          (accSummary acc)\<lparr> totalVans := totalVans (accSummary acc) + 1,
             vansWithData := (if slHasData ?b then vansWithData (accSummary acc) + 1
                              else vansWithData (accSummary acc)),
             averagePace := slSums ?b,
             vanDetails := (if slHasData ?b
                then vanDetails (accSummary acc) @
                  [\<lparr> vdVanId = colE row, vdDriver = colC row, vdRoute = colB row, vdPace = slPace ?b \<rparr>]
                else vanDetails (accSummary acc)) \<rparr>,
        accCounts = slCounts ?b \<rparr>"
    using d by (simp add: summary_step_def Let_def five)
  show "totalVans (accSummary (summary_step date row acc)) = totalVans (accSummary acc) + 1"
    by (simp add: st)
  show "vansWithData (accSummary (summary_step date row acc)) =
           vansWithData (accSummary acc) + (if \<exists>j < 5. slotCounted row j then 1 else 0)"
    using b(5) by (simp add: st)
  show "length (averagePace (accSummary (summary_step date row acc))) = 5" using b(1) by (simp add: st)
  show "length (accCounts (summary_step date row acc)) = 5" using b(2) by (simp add: st)
  show "\<forall>j < 5. averagePace (accSummary (summary_step date row acc)) ! j =
           averagePace (accSummary acc) ! j + slotValue row j"
    using b(3) by (simp add: st)
  show "\<forall>j < 5. accCounts (summary_step date row acc) ! j =
           accCounts acc ! j + (if slotCounted row j then 1 else 0)"
    using b(4) by (simp add: st)
  show "sumDate (accSummary (summary_step date row acc)) = sumDate (accSummary acc)"
    by (simp add: st)
qed

lemma summary_fold:
  assumes "length (averagePace (accSummary acc)) = 5" "length (accCounts acc) = 5"
  shows "(let r = fold (summary_step date) data acc; recs = rowsOfDate date data in
      totalVans (accSummary r) = totalVans (accSummary acc) + length recs
    \<and> vansWithData (accSummary r) =
        vansWithData (accSummary acc) + length (filter (\<lambda>row. \<exists>j < 5. slotCounted row j) recs)
    \<and> length (averagePace (accSummary r)) = 5 \<and> length (accCounts r) = 5
    \<and> (\<forall>j < 5. averagePace (accSummary r) ! j =
          averagePace (accSummary acc) ! j + sum_list (map (\<lambda>row. slotValue row j) recs))
    \<and> (\<forall>j < 5. accCounts r ! j =
          accCounts acc ! j + length (filter (\<lambda>row. slotCounted row j) recs))
    \<and> sumDate (accSummary r) = sumDate (accSummary acc))"
  using assms
proof (induction data arbitrary: acc)
  case Nil
  then show ?case by (simp add: Let_def rowsOfDate_def)
next
  case (Cons row data)
  show ?case
  proof (cases "rowDateIs (colA row) date")
    case False
    then have "summary_step date row acc = acc" by (simp add: summary_step_def)
    with False Cons.IH [OF Cons.prems] show ?thesis by (simp add: Let_def rowsOfDate_def)
  next
    case True
    note s = summary_step_dated [OF True Cons.prems]
    from Cons.IH [OF s(3) s(4)] show ?thesis
      using True by (simp add: Let_def rowsOfDate_def s)
  qed
qed

text \<open>A cell is counted exactly when it holds a number other than zero.\<close>

lemma slotCounted_iff: "slotCounted row j \<longleftrightarrow> (\<exists>n. paceCell row j = Count n \<and> n \<noteq> 0)"
  by (cases "paceCell row j") (simp_all add: slotCounted_def)

lemma slotValue_counted: "paceCell row j = Count n \<Longrightarrow> slotValue row j = n"
  by (simp add: slotValue_def)

lemma slotValue_not_counted: "\<not> slotCounted row j \<Longrightarrow> slotValue row j = 0"
  by (simp add: slotValue_def slotCounted_def)

lemma sum_not_counted:
  "filter (\<lambda>row. slotCounted row j) recs = [] \<Longrightarrow> sum_list (map (\<lambda>row. slotValue row j) recs) = 0"
  by (induction recs) (simp_all add: slotValue_not_counted split: if_splits)

text \<open>
  The summary of the rows of a date: every row of the date is a van; a van has data when one
  of its five cells is counted; a checkpoint's average is the rounded quotient of the sum
  and the number of the counted cells at that checkpoint, and 0 when no cell is counted.
\<close>

lemma summarize_characterisation:
  "(let s = summarize date data; recs = rowsOfDate date data in
      sumDate s = date
    \<and> totalVans s = length recs
    \<and> vansWithData s = length (filter (\<lambda>row. \<exists>j < 5. slotCounted row j) recs)
    \<and> length (averagePace s) = 5
    \<and> (\<forall>j < 5. averagePace s ! j =
          (let n = length (filter (\<lambda>row. slotCounted row j) recs);
               sm = sum_list (map (\<lambda>row. slotValue row j) recs)
           in if n > 0 then roundDiv sm n else 0)))"
proof -
  let ?acc = "\<lparr> accSummary = \<lparr> sumDate = date, totalVans = 0, vansWithData = 0,
                           averagePace = [0, 0, 0, 0, 0], vanDetails = [] \<rparr>,
                 accCounts = [0, 0, 0, 0, 0] \<rparr>"
  let ?r = "fold (summary_step date) data ?acc"
  let ?recs = "rowsOfDate date data"
  have l: "length (averagePace (accSummary ?acc)) = 5" "length (accCounts ?acc) = 5" by simp_all
  have z: "\<forall>j < 5. averagePace (accSummary ?acc) ! j = 0" "\<forall>j < 5. accCounts ?acc ! j = 0"
    by (simp_all add: nth_Cons' )
  from summary_fold [OF l, of date data]
  have r: "totalVans (accSummary ?r) = length ?recs"
    "vansWithData (accSummary ?r) = length (filter (\<lambda>row. \<exists>j < 5. slotCounted row j) ?recs)"
    "length (averagePace (accSummary ?r)) = 5" "length (accCounts ?r) = 5"
    "\<forall>j < 5. averagePace (accSummary ?r) ! j = sum_list (map (\<lambda>row. slotValue row j) ?recs)"
    "\<forall>j < 5. accCounts ?r ! j = length (filter (\<lambda>row. slotCounted row j) ?recs)"
    "sumDate (accSummary ?r) = date"
    using z by (simp_all add: Let_def)
  have s: "summarize date data = finishAverages ?r" by (simp add: summarize_def)
  have avg: "averagePace (finishAverages ?r) ! j =
       (let n = length (filter (\<lambda>row. slotCounted row j) ?recs);
            sm = sum_list (map (\<lambda>row. slotValue row j) ?recs)
        in if n > 0 then roundDiv sm n else 0)" if j: "j < 5" for j
  proof -
    have "averagePace (finishAverages ?r) ! j =
          (if accCounts ?r ! j > 0 then roundDiv (averagePace (accSummary ?r) ! j) (accCounts ?r ! j)
           else averagePace (accSummary ?r) ! j)"
      using j r(3) r(4) by (simp add: finishAverages_def)
    also have "\<dots> = (let n = length (filter (\<lambda>row. slotCounted row j) ?recs);
            sm = sum_list (map (\<lambda>row. slotValue row j) ?recs)
        in if n > 0 then roundDiv sm n else 0)"
      using j r(5) r(6) sum_not_counted [of j ?recs] by (simp add: Let_def)
    finally show ?thesis .
  qed
  show ?thesis
    unfolding Let_def s
  proof (intro conjI allI impI)
    show "sumDate (finishAverages ?r) = date" using r(7) by (simp add: finishAverages_def)
    show "totalVans (finishAverages ?r) = length ?recs" using r(1) by (simp add: finishAverages_def)
    show "vansWithData (finishAverages ?r) =
          length (filter (\<lambda>row. \<exists>j < 5. slotCounted row j) ?recs)"
      using r(2) by (simp add: finishAverages_def)
    show "length (averagePace (finishAverages ?r)) = 5" using r(3) r(4) by (simp add: finishAverages_def)
  next
    fix j :: nat assume "j < 5"
    from avg [OF this]
    show "averagePace (finishAverages ?r) ! j =
        (if 0 < length (filter (\<lambda>row. slotCounted row j) ?recs)
         then roundDiv (sum_list (map (\<lambda>row. slotValue row j) ?recs))
                (length (filter (\<lambda>row. slotCounted row j) ?recs))
         else 0)"
      by (simp add: Let_def)
  qed
qed

lemma zero_rows_last: "getLastPopulatedRowInColumns [ddHeader, zeroRowBW2, tenRowBW3] = 3"
  by (simp add: getLastPopulatedRowInColumns_def rowPopulated_def ddHeader_def zeroRowBW2_def
      tenRowBW3_def textPopulated_def trimsToEmpty_def isWhitespace_def)

lemma zero_rows_data: "dataRows [ddHeader, zeroRowBW2, tenRowBW3] 3 = [zeroRowBW2, tenRowBW3]"
  by (simp add: dataRows_def rowAt_def upt_rec numeral_3_eq_3 numeral_2_eq_2)

lemma zero_row_step:
  "summary_step ''02/11/2025'' zeroRowBW2
     \<lparr> accSummary = \<lparr> sumDate = ''02/11/2025'', totalVans = 0, vansWithData = 0,
                      averagePace = [0, 0, 0, 0, 0], vanDetails = [] \<rparr>,
       accCounts = [0, 0, 0, 0, 0] \<rparr>
   = \<lparr> accSummary = \<lparr> sumDate = ''02/11/2025'', totalVans = 1, vansWithData = 0,
                      averagePace = [0, 0, 0, 0, 0], vanDetails = [] \<rparr>,
       accCounts = [0, 0, 0, 0, 0] \<rparr>"
  by (simp add: summary_step_def Let_def TIME_SLOTS_def zeroRowBW2_def slot_step_def paceCell_def
      upt_rec)

lemma ten_row_step:
  "summary_step ''02/11/2025'' tenRowBW3
     \<lparr> accSummary = \<lparr> sumDate = ''02/11/2025'', totalVans = Suc 0, vansWithData = 0,
                      averagePace = [0, 0, 0, 0, 0], vanDetails = [] \<rparr>,
       accCounts = [0, 0, 0, 0, 0] \<rparr>
   = \<lparr> accSummary = \<lparr> sumDate = ''02/11/2025'', totalVans = 2, vansWithData = 1,
                      averagePace = [10, 0, 0, 0, 0],
                      vanDetails = [\<lparr> vdVanId = ''BW3'', vdDriver = ''N/A'', vdRoute = ''CX7'',
                                      vdPace = [(''1:40 PM'', 10)] \<rparr>] \<rparr>,
       accCounts = [1, 0, 0, 0, 0] \<rparr>"
  by (simp add: summary_step_def Let_def TIME_SLOTS_def tenRowBW3_def slot_step_def paceCell_def
      upt_rec)

text \<open>
  The summary of a sheet is the summary of its rows below the header, for the date given
  or for today when none is given; a sheet with no row below the header makes the range
  request fail.
\<close>

lemma summary_of_sheet:
  "generateDeliveryPaceSummary now (Some sh) dateArg =
     (if getLastPopulatedRowInColumns sh < 2 then Inl RangeWithoutRows
      else Inr (summarize (if dateArg = [] then getTodayString now else dateArg)
                  (drop 1 (take (getLastPopulatedRowInColumns sh) sh))))"
  by (simp add: generateDeliveryPaceSummary_def Let_def dataRows_eq)

text \<open>
  C9. For every list of pace records of a date, a checkpoint is averaged over the records
  holding a non-null numeric value at it, and \<open>vansWithData\<close> counts the records with a
  non-null value. The code tests the value for truthiness, so a reported count of 0 is
  left out: with the two vans of 11 February reporting 0 and 10 at 1:40 PM, the summary
  counts two vans, one van with data, and averages 1:40 PM to 10 (over one value) where
  the property gives 5 (over two values) and two vans with data.
\<close>

theorem C9_zero_count_dropped:
  "generateDeliveryPaceSummary feb11 (Some [ddHeader, zeroRowBW2, tenRowBW3]) ''02/11/2025''
   = Inr \<lparr> sumDate = ''02/11/2025'', totalVans = 2, vansWithData = 1,
           averagePace = [10, 0, 0, 0, 0],
           vanDetails = [\<lparr> vdVanId = ''BW3'', vdDriver = ''N/A'', vdRoute = ''CX7'',
                           vdPace = [(''1:40 PM'', 10)] \<rparr>] \<rparr>"
  by (simp add: generateDeliveryPaceSummary_def Let_def zero_rows_last zero_rows_data
      summarize_def zero_row_step ten_row_step finishAverages_def roundDiv_def)

end
